theory Spec2Isabelle
  imports Main "HOL-Library.Word" "HOL-Library.Sublist"
begin

section \<open>HyperX Cloud Flight Wireless reader: data model\<close>

text \<open>
  The reader (the module exported by the library file, \<open>index.js\<close>) keeps a handful of
  closure variables, opens HID handles, arms one repeating timer and reacts to raw reports.
  The closure variables and the parts of the host they touch (HID handles, timers, the
  listeners of the \<open>close\<close> signal) are one record; every function takes it and returns it
  together with the list of events it passed to \<open>emitter.emit\<close>, in order.
  The \<open>debug\<close> option only prints to the console and is not modelled further.
\<close>

type_synonym byte = "8 word"

datatype power = On | Off

datatype direction = Up | Down

datatype failure =
    StatusInterfaceNotFound
  | OpenFailed string
  | WriteFailed nat
  | DeviceFailed nat

datatype event =
    EvPower power
  | EvMuted bool
  | EvVolume direction
  | EvCharging bool
  | EvBattery nat
  | EvError failure
  | EvUnknown "byte list"

record options =
  debug :: bool
  updateDelay :: int
  dedupe :: bool
  batteryMinIntervalMs :: int

definition defaults :: options where
  "defaults = \<lparr> debug = False, updateDelay = 5 * 1000 * 60, dedupe = True,
                 batteryMinIntervalMs = 15 * 1000 \<rparr>"

text \<open>An entry of \<open>HID.devices()\<close>; fields a host may leave undefined are options.\<close>

record descriptor =
  vendorId :: nat
  productId :: nat
  product :: "string option"
  usage :: "nat option"
  usagePage :: "nat option"
  path :: string

definition VENDOR_ID :: nat where
  "VENDOR_ID = 2385"

definition SUPPORTED_PRODUCT_IDS :: "nat list" where
  "SUPPORTED_PRODUCT_IDS = [5828, 5923]"

definition STATUS_USAGE :: nat where
  "STATUS_USAGE = 771"

definition STATUS_USAGEPAGES :: "nat list" where
  "STATUS_USAGEPAGES = [65363, 65424]"

text \<open>The variable \<open>interval\<close>: declared without a value, a timer after
  \<open>setInterval\<close>, \<open>null\<close> after a power-off report.\<close>

datatype timer_ref = Undefined | Null | Timer nat

text \<open>A handle made by \<open>new HID.HID(path)\<close>; \<open>hcloses\<close> counts the calls of its
  \<open>close()\<close>.\<close>

record handle =
  hpath :: string
  hopen :: bool
  hcloses :: nat

record session =
  lastBattery :: "nat option"
  lastBatteryEmitTs :: int
  lastCharging :: "bool option"
  lastPower :: "power option"
  lastMuted :: "bool option"
  devices :: "descriptor list"
  interval :: timer_ref
  bootstrapDevice :: "nat option"
  handles :: "handle list"
  closeListeners :: "nat list"
  timers :: "(nat \<times> int) list"
  timerCount :: nat
  openLog :: "string list"
  writeLog :: "(nat \<times> byte list) list"

text \<open>
  What the host decides: whether the n-th call of \<open>new HID.HID\<close> (on a given path) and the
  n-th call of \<open>write\<close> throw.
\<close>

record env =
  openThrows :: "nat \<Rightarrow> string \<Rightarrow> bool"
  writeThrows :: "nat \<Rightarrow> bool"

section \<open>The keep-alive scheduler\<close>

definition setInterval :: "options \<Rightarrow> session \<Rightarrow> session" where
  "setInterval opts s =
     s\<lparr> interval := Timer (timerCount s),
        timers := timers s @ [(timerCount s, updateDelay opts)],
        timerCount := Suc (timerCount s) \<rparr>"

definition clearInterval :: "timer_ref \<Rightarrow> session \<Rightarrow> session" where
  "clearInterval r s =
     (case r of Timer t \<Rightarrow> s\<lparr> timers := filter (\<lambda>e. fst e \<noteq> t) (timers s) \<rparr>
              | _ \<Rightarrow> s)"

definition hidOpen :: "env \<Rightarrow> string \<Rightarrow> session \<Rightarrow> session \<times> nat option" where
  "hidOpen e p s =
     (if openThrows e (length (openLog s)) p
      then (s\<lparr> openLog := openLog s @ [p] \<rparr>, None)
      else (s\<lparr> openLog := openLog s @ [p],
               handles := handles s @ [\<lparr> hpath = p, hopen = True, hcloses = 0 \<rparr>] \<rparr>,
            Some (length (handles s))))"

definition wakeupPacket :: "byte list" where
  "wakeupPacket = [0x21, 0xff, 0x05] @ replicate 17 0x00"

definition wakeup :: "env \<Rightarrow> nat \<Rightarrow> session \<Rightarrow> session \<times> event list" where
  "wakeup e h s =
     (s\<lparr> writeLog := writeLog s @ [(h, wakeupPacket)] \<rparr>,
      if writeThrows e (length (writeLog s))
      then [EvError (WriteFailed h)] else [])"

definition isStatus :: "descriptor \<Rightarrow> bool" where
  "isStatus d \<longleftrightarrow> usage d = Some STATUS_USAGE \<and>
     (case usagePage d of None \<Rightarrow> False | Some p \<Rightarrow> p \<in> set STATUS_USAGEPAGES)"

definition hasStatusUsage :: "descriptor \<Rightarrow> bool" where
  "hasStatusUsage d \<longleftrightarrow> usage d = Some STATUS_USAGE"

definition bootstrapDeviceInfo :: "descriptor list \<Rightarrow> descriptor option" where
  "bootstrapDeviceInfo ds =
     (case find isStatus ds of Some d \<Rightarrow> Some d | None \<Rightarrow> find hasStatusUsage ds)"

definition bootstrap :: "options \<Rightarrow> env \<Rightarrow> session \<Rightarrow> session \<times> event list" where
  "bootstrap opts e s0 =
     (let s1 = (case interval s0 of Timer t \<Rightarrow> s0 | _ \<Rightarrow> setInterval opts s0) in
      case bootstrapDevice s1 of
        Some h \<Rightarrow> wakeup e h s1
      | None \<Rightarrow>
          (case bootstrapDeviceInfo (devices s1) of
             None \<Rightarrow> (s1, [EvError StatusInterfaceNotFound])
           | Some d \<Rightarrow>
               (case hidOpen e (path d) s1 of
                  (s2, None) \<Rightarrow> (s2, [EvError (OpenFailed (path d))])
                | (s2, Some h) \<Rightarrow> wakeup e h (s2\<lparr> bootstrapDevice := Some h \<rparr>))))"

section \<open>The report decoder\<close>

text \<open>The listener's blocks of the form
  \<^verbatim>\<open>if (!dedupe || value !== last) { emitter.emit(channel, value); last = value; }\<close>,
  one per channel with plain de-duplication: emit and store, or do neither.\<close>

definition emitPower :: "options \<Rightarrow> power \<Rightarrow> session \<Rightarrow> session \<times> event list" where
  "emitPower opts p s =
     (if \<not> dedupe opts \<or> lastPower s \<noteq> Some p
      then (s\<lparr> lastPower := Some p \<rparr>, [EvPower p]) else (s, []))"

definition emitMuted :: "options \<Rightarrow> bool \<Rightarrow> session \<Rightarrow> session \<times> event list" where
  "emitMuted opts isMuted s =
     (if \<not> dedupe opts \<or> Some isMuted \<noteq> lastMuted s
      then (s\<lparr> lastMuted := Some isMuted \<rparr>, [EvMuted isMuted]) else (s, []))"

definition emitCharging :: "options \<Rightarrow> bool \<Rightarrow> session \<Rightarrow> session \<times> event list" where
  "emitCharging opts isCharging s =
     (if \<not> dedupe opts \<or> Some isCharging \<noteq> lastCharging s
      then (s\<lparr> lastCharging := Some isCharging \<rparr>, [EvCharging isCharging]) else (s, []))"

text \<open>The two band tables of \<open>calculatePercentage\<close>; \<open>None\<close> is falling out of the
  block without a \<open>return\<close>.\<close>

definition bands0f :: "nat \<Rightarrow> nat option" where
  "bands0f magicValue =
     (if magicValue \<ge> 130 then Some 100
      else if magicValue < 130 \<and> magicValue \<ge> 120 then Some 95
      else if magicValue < 120 \<and> magicValue \<ge> 100 then Some 90
      else if magicValue < 100 \<and> magicValue \<ge> 70 then Some 85
      else if magicValue < 70 \<and> magicValue \<ge> 50 then Some 80
      else if magicValue < 50 \<and> magicValue \<ge> 20 then Some 75
      else if magicValue < 20 \<and> magicValue > 0 then Some 70
      else None)"

definition bands0e :: "nat \<Rightarrow> nat option" where
  "bands0e magicValue =
     (if magicValue < 250 \<and> magicValue > 240 then Some 65
      else if magicValue < 240 \<and> magicValue \<ge> 220 then Some 60
      else if magicValue < 220 \<and> magicValue \<ge> 208 then Some 55
      else if magicValue < 208 \<and> magicValue \<ge> 200 then Some 50
      else if magicValue < 200 \<and> magicValue \<ge> 190 then Some 45
      else if magicValue < 190 \<and> magicValue \<ge> 180 then Some 40
      else if magicValue < 179 \<and> magicValue \<ge> 169 then Some 35
      else if magicValue < 169 \<and> magicValue \<ge> 159 then Some 30
      else if magicValue < 159 \<and> magicValue \<ge> 148 then Some 25
      else if magicValue < 148 \<and> magicValue \<ge> 119 then Some 20
      else if magicValue < 119 \<and> magicValue \<ge> 90 then Some 15
      else if magicValue < 90 then Some 10
      else None)"

text \<open>\<open>calculatePercentage\<close>: the charging decode of charge state \<open>0x10\<close> happens inside
  it, before any \<open>return\<close>.\<close>

definition calculatePercentage ::
  "options \<Rightarrow> nat \<Rightarrow> nat \<Rightarrow> session \<Rightarrow> (session \<times> event list) \<times> nat option" where
  "calculatePercentage opts chargeState magicValue s =
     (let r = (if chargeState = 0x10 then emitCharging opts (magicValue \<ge> 20) s else (s, []))
      in if chargeState = 0x10 \<and> magicValue \<le> 11 then (r, Some 100)
         else case (if chargeState = 0x0f then bands0f magicValue else None) of
                Some p \<Rightarrow> (r, Some p)
              | None \<Rightarrow>
                  (case (if chargeState = 0x0e then bands0e magicValue else None) of
                     Some p \<Rightarrow> (r, Some p)
                   | None \<Rightarrow> (r, None)))"

text \<open>The battery block at the end of the status case, the two constants
  \<open>chargeState\<close> and \<open>magicValue\<close> it starts with, and the \<open>data\<close> listener;
  \<open>now\<close> is what \<open>Date.now()\<close> returns during the call.\<close>

definition emitBattery :: "options \<Rightarrow> int \<Rightarrow> nat \<Rightarrow> session \<Rightarrow> session \<times> event list" where
  "emitBattery opts now percentage s =
     (let changed = (Some percentage \<noteq> lastBattery s);
          timedOut = (now - lastBatteryEmitTs s \<ge> batteryMinIntervalMs opts)
      in if \<not> dedupe opts \<or> changed \<or> timedOut
         then (s\<lparr> lastBattery := Some percentage, lastBatteryEmitTs := now \<rparr>,
               [EvBattery percentage])
         else (s, []))"

definition chargeStateOf :: "byte list \<Rightarrow> nat" where
  "chargeStateOf data = unat (data ! 3)"

definition magicValueOf :: "byte list \<Rightarrow> nat" where
  "magicValueOf data = (if data ! 4 \<noteq> 0 then unat (data ! 4) else chargeStateOf data)"

definition onData :: "options \<Rightarrow> env \<Rightarrow> int \<Rightarrow> byte list \<Rightarrow> session \<Rightarrow> session \<times> event list" where
  "onData opts e now data s =
     (if length data = 0x02 then
        (if data ! 0 = 0x64 \<and> data ! 1 = 0x03 then
           emitPower opts Off ((clearInterval (interval s) s)\<lparr> interval := Null \<rparr>)
         else if data ! 0 = 0x64 \<and> data ! 1 = 0x01 then
           (case bootstrap opts e s of
              (s1, ev1) \<Rightarrow> (case emitPower opts On s1 of (s2, ev2) \<Rightarrow> (s2, ev1 @ ev2)))
         else emitMuted opts (data ! 0 = 0x65 \<and> data ! 1 = 0x04) s)
      else if length data = 0x05 then
        (if data ! 1 = 0x01 then (s, [EvVolume Up])
         else if data ! 1 = 0x02 then (s, [EvVolume Down])
         else (s, []))
      else if length data = 0x0f \<or> length data = 0x14 then
        (case calculatePercentage opts (chargeStateOf data) (magicValueOf data) s of
           ((s1, ev1), None) \<Rightarrow> (s1, ev1)
         | ((s1, ev1), Some percentage) \<Rightarrow>
             (case emitBattery opts now percentage s1 of (s2, ev2) \<Rightarrow> (s2, ev1 @ ev2)))
      else (s, [EvUnknown data]))"

section \<open>The session: construction, inputs, shutdown\<close>

text \<open>\<open>toLowerCase\<close> on the ASCII letters and \<open>String.includes\<close>, for the product-name
  fallback of the device selection.\<close>

definition lowerChar :: "char \<Rightarrow> char" where
  "lowerChar c =
     (let n = (of_char c :: nat) in if 65 \<le> n \<and> n \<le> 90 then char_of (n + 32) else c)"

definition toLowerCase :: "string \<Rightarrow> string" where
  "toLowerCase str = map lowerChar str"

fun startsWith :: "string \<Rightarrow> string \<Rightarrow> bool" where
  "startsWith str [] = True"
| "startsWith [] (c # cs) = False"
| "startsWith (x # xs) (c # cs) = (x = c \<and> startsWith xs cs)"

fun includesStr :: "string \<Rightarrow> string \<Rightarrow> bool" where
  "includesStr [] sub = startsWith [] sub"
| "includesStr (x # xs) sub = (startsWith (x # xs) sub \<or> includesStr xs sub)"

definition selectDevices :: "descriptor list \<Rightarrow> descriptor list" where
  "selectDevices everything =
     (let all = filter (\<lambda>d. vendorId d = VENDOR_ID) everything;
          known = filter (\<lambda>d. productId d \<in> set SUPPORTED_PRODUCT_IDS) all
      in if length known = 0
         then filter (\<lambda>d. includesStr (toLowerCase (case product d of None \<Rightarrow> [] | Some n \<Rightarrow> n))
                             ''cloud flight wireless'') all
         else known)"

definition initial :: "descriptor list \<Rightarrow> session" where
  "initial ds =
     \<lparr> lastBattery = None, lastBatteryEmitTs = 0, lastCharging = None, lastPower = None,
       lastMuted = None, devices = ds, interval = Undefined, bootstrapDevice = None,
       handles = [], closeListeners = [], timers = [], timerCount = 0,
       openLog = [], writeLog = [] \<rparr>"

text \<open>The \<open>devices.forEach\<close> that opens every selected interface: a failed open emits an
  error and registers nothing; an opened handle gets its \<open>close\<close> listener.\<close>

fun openAll :: "env \<Rightarrow> descriptor list \<Rightarrow> session \<Rightarrow> session \<times> event list" where
  "openAll e [] s = (s, [])"
| "openAll e (deviceInfo # rest) s =
     (case hidOpen e (path deviceInfo) s of
        (s1, None) \<Rightarrow>
          (case openAll e rest s1 of
             (s2, ev) \<Rightarrow> (s2, EvError (OpenFailed (path deviceInfo)) # ev))
      | (s1, Some device) \<Rightarrow>
          openAll e rest (s1\<lparr> closeListeners := closeListeners s1 @ [device] \<rparr>))"

text \<open>The exported factory: it throws when no interface is selected, otherwise it runs
  \<open>bootstrap\<close> once, opens the interfaces and returns the emitter.\<close>

datatype thrown = DeviceNotFound

definition create ::
  "options \<Rightarrow> env \<Rightarrow> descriptor list \<Rightarrow> thrown + (session \<times> event list)" where
  "create opts e everything =
     (let ds = selectDevices everything in
      if length ds = 0 then Inl DeviceNotFound
      else case bootstrap opts e (initial ds) of
             (s1, ev1) \<Rightarrow> (case openAll e ds s1 of (s2, ev2) \<Rightarrow> Inr (s2, ev1 @ ev2)))"

text \<open>\<open>device.close()\<close> inside \<open>try\<close>/\<open>catch\<close>: whatever it throws is dropped.\<close>

definition hidClose :: "nat \<Rightarrow> session \<Rightarrow> session" where
  "hidClose h s =
     (if h < length (handles s)
      then s\<lparr> handles := (handles s)[h := (handles s ! h)\<lparr> hopen := False,
                                           hcloses := Suc (hcloses (handles s ! h)) \<rparr>] \<rparr>
      else s)"

definition onClose :: "session \<Rightarrow> session" where
  "onClose s = fold hidClose (closeListeners s) s"

text \<open>
  What can happen to a session once it exists: a report arrives on an open headset handle,
  a live timer fires, a handle reports an I/O error, or the consumer sends \<open>close\<close>.
\<close>

datatype input =
    Report nat "byte list" int
  | Tick nat
  | HidError nat
  | Close

definition step :: "options \<Rightarrow> env \<Rightarrow> input \<Rightarrow> session \<Rightarrow> session \<times> event list" where
  "step opts e i s =
     (case i of
        Report h data now \<Rightarrow>
          (if h \<in> set (closeListeners s) \<and> h < length (handles s) \<and> hopen (handles s ! h)
           then onData opts e now data s else (s, []))
      | Tick t \<Rightarrow> (if t \<in> fst ` set (timers s) then bootstrap opts e s else (s, []))
      | HidError h \<Rightarrow> (if h < length (handles s) then (s, [EvError (DeviceFailed h)]) else (s, []))
      | Close \<Rightarrow> (onClose s, []))"

fun run :: "options \<Rightarrow> env \<Rightarrow> input list \<Rightarrow> session \<Rightarrow> session \<times> event list" where
  "run opts e [] s = (s, [])"
| "run opts e (i # rest) s =
     (case step opts e i s of
        (s1, ev1) \<Rightarrow> (case run opts e rest s1 of (s2, ev2) \<Rightarrow> (s2, ev1 @ ev2)))"

text \<open>The scheduler is armed when the repeating timer held in \<open>interval\<close> is live.\<close>

definition armed :: "session \<Rightarrow> bool" where
  "armed s = (case interval s of Timer t \<Rightarrow> t \<in> fst ` set (timers s) | _ \<Rightarrow> False)"

text \<open>The timer bookkeeping of every session: the only live timer is the one in
  \<open>interval\<close>.\<close>

definition timerOk :: "session \<Rightarrow> bool" where
  "timerOk s =
     ((case interval s of Timer t \<Rightarrow> map fst (timers s) = [t] | _ \<Rightarrow> timers s = [])
      \<and> list_all (\<lambda>t. t < timerCount s) (map fst (timers s)))"

section \<open>The decoder as the specification words it\<close>

text \<open>
  The percentage of a status report as the specification's decoder section lists it, band
  by band in interval notation, for the charge states \<open>0x10\<close>, \<open>0x0f\<close> and \<open>0x0e\<close>; it
  is compared with \<open>calculatePercentage\<close> below.
\<close>

definition specPercentage :: "nat \<Rightarrow> nat \<Rightarrow> nat option" where
  "specPercentage chargeState magicValue =
     (if chargeState = 0x10 then (if magicValue \<le> 11 then Some 100 else None)
      else if chargeState = 0x0f then
        (if 130 \<le> magicValue then Some 100
         else if 120 \<le> magicValue \<and> magicValue < 130 then Some 95
         else if 100 \<le> magicValue \<and> magicValue < 120 then Some 90
         else if 70 \<le> magicValue \<and> magicValue < 100 then Some 85
         else if 50 \<le> magicValue \<and> magicValue < 70 then Some 80
         else if 20 \<le> magicValue \<and> magicValue < 50 then Some 75
         else if 0 < magicValue \<and> magicValue < 20 then Some 70
         else None)
      else if chargeState = 0x0e then
        (if 240 < magicValue \<and> magicValue < 250 then Some 65
         else if 220 \<le> magicValue \<and> magicValue < 240 then Some 60
         else if 208 \<le> magicValue \<and> magicValue < 220 then Some 55
         else if 200 \<le> magicValue \<and> magicValue < 208 then Some 50
         else if 190 \<le> magicValue \<and> magicValue < 200 then Some 45
         else if 180 \<le> magicValue \<and> magicValue < 190 then Some 40
         else if 169 \<le> magicValue \<and> magicValue < 179 then Some 35
         else if 159 \<le> magicValue \<and> magicValue < 169 then Some 30
         else if 148 \<le> magicValue \<and> magicValue < 159 then Some 25
         else if 119 \<le> magicValue \<and> magicValue < 148 then Some 20
         else if 90 \<le> magicValue \<and> magicValue < 119 then Some 15
         else if magicValue < 90 then Some 10
         else None)
      else None)"

text \<open>The signals a status report decodes to, in the order the listener produces them.\<close>

definition specStatusDecode :: "byte list \<Rightarrow> event list" where
  "specStatusDecode data =
     (let chargeState = unat (data ! 3);
          magicValue = (if data ! 4 \<noteq> 0 then unat (data ! 4) else chargeState)
      in (if chargeState = 0x10 then [EvCharging (magicValue \<ge> 20)] else []) @
         (case specPercentage chargeState magicValue of
            None \<Rightarrow> [] | Some p \<Rightarrow> [EvBattery p]))"

text \<open>The comparisons of the \<open>0x0e\<close> block of \<open>calculatePercentage\<close>, one entry per
  \<open>if\<close>, in order, and the percentages of the bands whose comparison a value satisfies.\<close>

definition table0e :: "((nat \<Rightarrow> bool) \<times> nat) list" where
  "table0e =
     [(\<lambda>magicValue. magicValue < 250 \<and> magicValue > 240, 65),
      (\<lambda>magicValue. magicValue < 240 \<and> magicValue \<ge> 220, 60),
      (\<lambda>magicValue. magicValue < 220 \<and> magicValue \<ge> 208, 55),
      (\<lambda>magicValue. magicValue < 208 \<and> magicValue \<ge> 200, 50),
      (\<lambda>magicValue. magicValue < 200 \<and> magicValue \<ge> 190, 45),
      (\<lambda>magicValue. magicValue < 190 \<and> magicValue \<ge> 180, 40),
      (\<lambda>magicValue. magicValue < 179 \<and> magicValue \<ge> 169, 35),
      (\<lambda>magicValue. magicValue < 169 \<and> magicValue \<ge> 159, 30),
      (\<lambda>magicValue. magicValue < 159 \<and> magicValue \<ge> 148, 25),
      (\<lambda>magicValue. magicValue < 148 \<and> magicValue \<ge> 119, 20),
      (\<lambda>magicValue. magicValue < 119 \<and> magicValue \<ge> 90, 15),
      (\<lambda>magicValue. magicValue < 90, 10)]"

definition matching0e :: "nat \<Rightarrow> nat list" where
  "matching0e magicValue = map snd (filter (\<lambda>band. fst band magicValue) table0e)"

section \<open>Concrete hosts, interfaces and reports\<close>

definition quietHost :: env where
  "quietHost = \<lparr> openThrows = (\<lambda>n p. False), writeThrows = (\<lambda>n. False) \<rparr>"

definition statusReport :: "byte \<Rightarrow> byte \<Rightarrow> byte list" where
  "statusReport b3 b4 = [0, 0, 0, b3, b4, 0, 0, 0, 0, 0, 0, 0, 0, 0, 0]"

definition powerReport :: "power \<Rightarrow> byte list" where
  "powerReport p = (case p of Off \<Rightarrow> [0x64, 0x03] | On \<Rightarrow> [0x64, 0x01])"

section \<open>Reading the emitted events by channel\<close>

fun powerEvents :: "event list \<Rightarrow> power list" where
  "powerEvents [] = []"
| "powerEvents (EvPower p # ev) = p # powerEvents ev"
| "powerEvents (x # ev) = powerEvents ev"

fun mutedEvents :: "event list \<Rightarrow> bool list" where
  "mutedEvents [] = []"
| "mutedEvents (EvMuted m # ev) = m # mutedEvents ev"
| "mutedEvents (x # ev) = mutedEvents ev"

fun chargingEvents :: "event list \<Rightarrow> bool list" where
  "chargingEvents [] = []"
| "chargingEvents (EvCharging c # ev) = c # chargingEvents ev"
| "chargingEvents (x # ev) = chargingEvents ev"

fun batteryEvents :: "event list \<Rightarrow> nat list" where
  "batteryEvents [] = []"
| "batteryEvents (EvBattery p # ev) = p # batteryEvents ev"
| "batteryEvents (x # ev) = batteryEvents ev"

fun isError :: "event \<Rightarrow> bool" where
  "isError (EvError f) = True"
| "isError x = False"

definition nonErrors :: "event list \<Rightarrow> event list" where
  "nonErrors ev = filter (\<lambda>x. \<not> isError x) ev"

text \<open>The last value emitted on a channel, if any.\<close>

definition lastOf :: "'a list \<Rightarrow> 'a option" where
  "lastOf xs = (if xs = [] then None else Some (last xs))"

text \<open>
  The plain de-duplication policy in the specification's words: with the switch on, a
  decoded value is emitted iff it differs from the last emitted value of its channel; with
  the switch off it is always emitted; afterwards the stored value is the decoded one.
\<close>

definition dedupePolicy :: "bool \<Rightarrow> 'a option \<Rightarrow> 'a \<Rightarrow> 'a list \<Rightarrow> 'a option \<Rightarrow> bool" where
  "dedupePolicy enabled lastEmitted v emitted stored \<longleftrightarrow>
     emitted = (if enabled \<and> lastEmitted = Some v then [] else [v]) \<and> stored = Some v"

text \<open>The part of the session the scheduler owns.\<close>

definition scheduler ::
  "session \<Rightarrow> timer_ref \<times> (nat \<times> int) list \<times> nat \<times> nat option \<times> handle list
     \<times> string list \<times> (nat \<times> byte list) list" where
  "scheduler s =
     (interval s, timers s, timerCount s, bootstrapDevice s, handles s, openLog s, writeLog s)"

text \<open>The stored last values of the four de-duplicated channels, the last values a list
  of events carries on them, and the later of two such readings.\<close>

definition orElse :: "'a option \<Rightarrow> 'a option \<Rightarrow> 'a option" where
  "orElse new old = (case new of None \<Rightarrow> old | Some v \<Rightarrow> Some v)"

definition stored :: "session \<Rightarrow> power option \<times> bool option \<times> bool option \<times> nat option" where
  "stored s = (lastPower s, lastMuted s, lastCharging s, lastBattery s)"

definition lastEmitted :: "event list \<Rightarrow> power option \<times> bool option \<times> bool option \<times> nat option" where
  "lastEmitted ev = (lastOf (powerEvents ev), lastOf (mutedEvents ev),
                     lastOf (chargingEvents ev), lastOf (batteryEvents ev))"

fun overlay ::
  "'a option \<times> 'b option \<times> 'c option \<times> 'd option
     \<Rightarrow> 'a option \<times> 'b option \<times> 'c option \<times> 'd option
     \<Rightarrow> 'a option \<times> 'b option \<times> 'c option \<times> 'd option" where
  "overlay (a, b, c, d) (a', b', c', d') = (orElse a a', orElse b b', orElse c c', orElse d d')"

text \<open>The same report delivered twice in succession: the events of the first and of the
  second delivery.\<close>

definition twice ::
  "options \<Rightarrow> env \<Rightarrow> int \<Rightarrow> int \<Rightarrow> byte list \<Rightarrow> session \<Rightarrow> event list \<times> event list" where
  "twice opts e now now' data s =
     (snd (onData opts e now data s),
      snd (onData opts e now' data (fst (onData opts e now data s))))"

definition statusInterface :: descriptor where
  "statusInterface =
     \<lparr> vendorId = 2385, productId = 5828, product = Some ''HyperX Cloud Flight Wireless'',
       usage = Some 771, usagePage = Some 65363, path = ''hid-status'' \<rparr>"

definition controlInterface :: descriptor where
  "controlInterface =
     \<lparr> vendorId = 2385, productId = 5828, product = Some ''HyperX Cloud Flight Wireless'',
       usage = Some 1, usagePage = Some 65472, path = ''hid-control'' \<rparr>"

text \<open>The session \<open>create\<close> yields on a quiet host that exposes the status interface
  alone, and the one for the control interface alone.\<close>

definition statusSession :: session where
  "statusSession =
     \<lparr> lastBattery = None, lastBatteryEmitTs = 0, lastCharging = None, lastPower = None,
       lastMuted = None, devices = [statusInterface], interval = Timer 0,
       bootstrapDevice = Some 0,
       handles = [\<lparr> hpath = ''hid-status'', hopen = True, hcloses = 0 \<rparr>,
                  \<lparr> hpath = ''hid-status'', hopen = True, hcloses = 0 \<rparr>],
       closeListeners = [1], timers = [(0, 300000)], timerCount = 1,
       openLog = [''hid-status'', ''hid-status''],
       writeLog = [(0, wakeupPacket)] \<rparr>"

definition controlSession :: session where
  "controlSession =
     \<lparr> lastBattery = None, lastBatteryEmitTs = 0, lastCharging = None, lastPower = None,
       lastMuted = None, devices = [controlInterface], interval = Timer 0,
       bootstrapDevice = None,
       handles = [\<lparr> hpath = ''hid-control'', hopen = True, hcloses = 0 \<rparr>],
       closeListeners = [0], timers = [(0, 300000)], timerCount = 1,
       openLog = [''hid-control''], writeLog = [] \<rparr>"

section \<open>Times of the battery emissions\<close>

text \<open>The times of the battery emissions of a step and of a run: what \<open>Date.now()\<close>
  returned in each report that emitted a battery event, one entry per event, in order.\<close>

definition stepEmitTimes :: "input \<Rightarrow> event list \<Rightarrow> int list" where
  "stepEmitTimes i ev =
     (case i of Report h data now \<Rightarrow> map (\<lambda>p. now) (batteryEvents ev) | _ \<Rightarrow> [])"

fun batteryEmitTimes :: "options \<Rightarrow> env \<Rightarrow> input list \<Rightarrow> session \<Rightarrow> int list" where
  "batteryEmitTimes opts e [] s = []"
| "batteryEmitTimes opts e (i # rest) s =
     stepEmitTimes i (snd (step opts e i s))
       @ batteryEmitTimes opts e rest (fst (step opts e i s))"

text \<open>The time of the last battery emission, 0 before the first.\<close>

definition lastEmitTime :: "int list \<Rightarrow> int" where
  "lastEmitTime ts = (case lastOf ts of None \<Rightarrow> 0 | Some t \<Rightarrow> t)"

section \<open>Bookkeeping of handles\<close>

text \<open>The handle bookkeeping of every session: each handle is a headset handle (it has a
  \<open>close\<close> listener) or the scheduler's status handle, never both; the headset handles were
  opened one per selected interface, in order; the status handle is on the path of the
  chosen status interface.\<close>

definition handlesOk :: "session \<Rightarrow> bool" where
  "handlesOk s \<longleftrightarrow>
     distinct (closeListeners s)
     \<and> (\<forall>h\<in>set (closeListeners s). h < length (handles s) \<and> bootstrapDevice s \<noteq> Some h)
     \<and> (\<forall>h<length (handles s). h \<in> set (closeListeners s) \<or> bootstrapDevice s = Some h)
     \<and> (\<forall>b. bootstrapDevice s = Some b \<longrightarrow> b < length (handles s)
            \<and> Some (hpath (handles s ! b)) = map_option path (bootstrapDeviceInfo (devices s)))
     \<and> subseq (map (\<lambda>h. hpath (handles s ! h)) (closeListeners s)) (map path (devices s))"

text \<open>No handle has been closed yet.\<close>

definition untouched :: "session \<Rightarrow> bool" where
  "untouched s = list_all (\<lambda>h. hopen h \<and> hcloses h = 0) (handles s)"

text \<open>A host on which the second call of \<open>new HID.HID\<close> throws, and the session
  \<open>create\<close> yields there for the status and the control interface.\<close>

definition flakyHost :: env where
  "flakyHost = \<lparr> openThrows = (\<lambda>n p. n = 1), writeThrows = (\<lambda>n. False) \<rparr>"

definition flakySession :: session where
  "flakySession =
     \<lparr> lastBattery = None, lastBatteryEmitTs = 0, lastCharging = None, lastPower = None,
       lastMuted = None, devices = [statusInterface, controlInterface], interval = Timer 0,
       bootstrapDevice = Some 0,
       handles = [\<lparr> hpath = ''hid-status'', hopen = True, hcloses = 0 \<rparr>,
                  \<lparr> hpath = ''hid-control'', hopen = True, hcloses = 0 \<rparr>],
       closeListeners = [1], timers = [(0, 300000)], timerCount = 1,
       openLog = [''hid-status'', ''hid-status'', ''hid-control''],
       writeLog = [(0, wakeupPacket)] \<rparr>"

text \<open>The sessions reached from \<open>statusSession\<close> by a power-off and by a power-on
  report.\<close>

definition poweredOff :: session where
  "poweredOff = statusSession\<lparr> lastPower := Some Off, interval := Null, timers := [] \<rparr>"

definition poweredOn :: session where
  "poweredOn = statusSession\<lparr> lastPower := Some On,
                               writeLog := [(0, wakeupPacket), (0, wakeupPacket)] \<rparr>"

text \<open>A host on which the first call of \<open>new HID.HID\<close> throws, and the session
  \<open>create\<close> yields there for the status interface: no status handle yet.\<close>

definition lateHost :: env where
  "lateHost = \<lparr> openThrows = (\<lambda>n p. n = 0), writeThrows = (\<lambda>n. False) \<rparr>"

definition lateSession :: session where
  "lateSession =
     \<lparr> lastBattery = None, lastBatteryEmitTs = 0, lastCharging = None, lastPower = None,
       lastMuted = None, devices = [statusInterface], interval = Timer 0,
       bootstrapDevice = None,
       handles = [\<lparr> hpath = ''hid-status'', hopen = True, hcloses = 0 \<rparr>],
       closeListeners = [0], timers = [(0, 300000)], timerCount = 1,
       openLog = [''hid-status'', ''hid-status''], writeLog = [] \<rparr>"

text \<open>A host on which every call of \<open>new HID.HID\<close> but the second throws; \<open>create\<close>
  yields the same session there.\<close>

definition deafHost :: env where
  "deafHost = \<lparr> openThrows = (\<lambda>n p. n \<noteq> 1), writeThrows = (\<lambda>n. False) \<rparr>"

section \<open>The status decoder\<close>

lemma calculatePercentage_result:
  "snd (calculatePercentage opts cs mv s) =
     (if cs = 16 \<and> mv \<le> 11 then Some 100
      else if cs = 15 then bands0f mv else if cs = 14 then bands0e mv else None)"
  by (auto simp: calculatePercentage_def Let_def split: option.splits)

lemma calculatePercentage_effect:
  "fst (calculatePercentage opts cs mv s) =
     (if cs = 16 then emitCharging opts (mv \<ge> 20) s else (s, []))"
  by (auto simp: calculatePercentage_def Let_def split: option.splits)

lemma calculatePercentage_spec:
  "snd (calculatePercentage opts cs mv s) = specPercentage cs mv"
  unfolding calculatePercentage_result
  by (simp add: specPercentage_def bands0f_def bands0e_def)

lemma onData_status:
  assumes "length data = 15 \<or> length data = 20"
  shows "onData opts e now data s =
    (case calculatePercentage opts (chargeStateOf data) (magicValueOf data) s of
       ((s1, ev1), None) \<Rightarrow> (s1, ev1)
     | ((s1, ev1), Some percentage) \<Rightarrow>
         (case emitBattery opts now percentage s1 of (s2, ev2) \<Rightarrow> (s2, ev1 @ ev2)))"
  using assms by (auto simp: onData_def)

lemma onData_status_events:
  assumes "length data = 15 \<or> length data = 20"
  shows "snd (onData opts e now data s) =
    snd (fst (calculatePercentage opts (chargeStateOf data) (magicValueOf data) s)) @
    (case snd (calculatePercentage opts (chargeStateOf data) (magicValueOf data) s) of
       None \<Rightarrow> []
     | Some p \<Rightarrow> snd (emitBattery opts now p
          (fst (fst (calculatePercentage opts (chargeStateOf data) (magicValueOf data) s)))))"
  unfolding onData_status[OF assms]
  by (cases "calculatePercentage opts (chargeStateOf data) (magicValueOf data) s")
     (auto split: option.splits prod.splits)

text \<open>
  C1, as stated, fails: the claim lists the charge states \<open>0x10\<close> and \<open>0x0f\<close> and says
  that any other charge state determines no percentage, but a 15-byte report with charge
  state \<open>0x0e\<close> and level byte 100 yields the battery percentage 15.
\<close>

theorem status_other_chargeState_counterexample:
  "length (statusReport 0x0e 100) = 15 \<and> chargeStateOf (statusReport 0x0e 100) = 0x0e \<and>
   snd (onData defaults quietHost 0 (statusReport 0x0e 100) (initial [])) = [EvBattery 15]"
  by (simp add: statusReport_def chargeStateOf_def magicValueOf_def onData_def
      calculatePercentage_def bands0e_def emitBattery_def initial_def defaults_def Let_def)

text \<open>
  C1, amended: for every report of length 15 or 20, with \<open>chargeState\<close> byte 3 and
  \<open>magicValue\<close> byte 4 if nonzero, else \<open>chargeState\<close>, the percentage the decoder
  determines is the one of \<open>specPercentage\<close> (100 for \<open>0x10\<close> with \<open>magicValue \<le> 11\<close>, the
  descending bands for \<open>0x0f\<close>, the \<open>0x0e\<close> bands for \<open>0x0e\<close>, none for any other
  charge state); charging is decoded exactly for \<open>0x10\<close>, as \<open>magicValue \<ge> 20\<close>.
  With de-duplication off the listener emits exactly these signals; with it on it emits
  nothing else.
\<close>

theorem status_report_decode:
  assumes "length data = 15 \<or> length data = 20"
  shows "snd (calculatePercentage opts (chargeStateOf data) (magicValueOf data) s)
           = specPercentage (unat (data ! 3))
               (if data ! 4 \<noteq> 0 then unat (data ! 4) else unat (data ! 3))
         \<and> (\<not> dedupe opts \<longrightarrow> snd (onData opts e now data s) = specStatusDecode data)
         \<and> set (snd (onData opts e now data s)) \<subseteq> set (specStatusDecode data)"
proof -
  let ?cs = "chargeStateOf data" and ?mv = "magicValueOf data"
  have mv: "?mv = (if data ! 4 \<noteq> 0 then unat (data ! 4) else unat (data ! 3))"
    by (simp add: magicValueOf_def chargeStateOf_def)
  have cs: "?cs = unat (data ! 3)" by (simp add: chargeStateOf_def)
  have 1: "snd (calculatePercentage opts ?cs ?mv s) = specPercentage ?cs ?mv"
    by (rule calculatePercentage_spec)
  have sd: "specStatusDecode data = (if ?cs = 0x10 then [EvCharging (?mv \<ge> 20)] else []) @
         (case specPercentage ?cs ?mv of None \<Rightarrow> [] | Some p \<Rightarrow> [EvBattery p])"
    by (simp add: specStatusDecode_def Let_def mv cs)
  have 2: "\<not> dedupe opts \<Longrightarrow> snd (onData opts e now data s) = specStatusDecode data"
    unfolding onData_status_events[OF assms] sd 1 calculatePercentage_effect
    by (simp add: emitCharging_def emitBattery_def Let_def split: option.splits)
  have 3: "set (snd (onData opts e now data s)) \<subseteq> set (specStatusDecode data)"
    unfolding onData_status_events[OF assms] sd 1 calculatePercentage_effect
    by (auto simp add: emitCharging_def emitBattery_def Let_def split: option.splits if_splits)
  from 1 2 3 show ?thesis unfolding mv cs by blast
qed

theorem status_report_decode_witness:
  "(length (statusReport 0x10 5) = 15 \<or> length (statusReport 0x10 5) = 20) \<and>
   \<not> dedupe (defaults\<lparr> dedupe := False \<rparr>) \<and>
   snd (onData (defaults\<lparr> dedupe := False \<rparr>) quietHost 0 (statusReport 0x10 5) (initial []))
     = [EvCharging False, EvBattery 100]"
proof -
  have h: "length (statusReport 0x10 5) = 15 \<or> length (statusReport 0x10 5) = 20"
    by (simp add: statusReport_def)
  have d: "specStatusDecode (statusReport 0x10 5) = [EvCharging False, EvBattery 100]"
    by (simp add: specStatusDecode_def specPercentage_def statusReport_def)
  show ?thesis
    using h d status_report_decode [OF h, of "defaults\<lparr> dedupe := False \<rparr>" "initial []" quietHost 0]
    by (simp add: defaults_def)
qed

text \<open>
  C5: the percentage \<open>calculatePercentage\<close> returns depends on \<open>chargeState\<close> and
  \<open>magicValue\<close> only (not on the options or the session), and for charge state \<open>0x0f\<close> or
  \<open>0x0e\<close> it does not increase as \<open>magicValue\<close> decreases, wherever it is determined.
\<close>

theorem battery_lookup_pure_monotone:
  "snd (calculatePercentage opts cs mv s) = snd (calculatePercentage opts' cs mv s')
   \<and> ((cs = 0x0f \<or> cs = 0x0e) \<and> m2 \<le> m1
        \<and> snd (calculatePercentage opts cs m1 s) = Some p1
        \<and> snd (calculatePercentage opts cs m2 s) = Some p2 \<longrightarrow> p2 \<le> p1)"
proof -
  have mono0f: "p2 \<le> p1" if "m2 \<le> m1" "bands0f m1 = Some p1" "bands0f m2 = Some p2"
    using that by (auto simp: bands0f_def split: if_splits)
  have mono0e: "p2 \<le> p1" if "m2 \<le> m1" "bands0e m1 = Some p1" "bands0e m2 = Some p2"
    using that by (auto simp: bands0e_def split: if_splits)
  show ?thesis
    unfolding calculatePercentage_result using mono0f mono0e by auto
qed

theorem battery_lookup_pure_monotone_witness:
  "((15::nat) = 0x0f \<or> (15::nat) = 0x0e) \<and> (60::nat) \<le> 130
   \<and> snd (calculatePercentage defaults 15 130 (initial [])) = Some 100
   \<and> snd (calculatePercentage defaults 15 60 (initial [])) = Some 80
   \<and> (80::nat) \<le> 100"
proof -
  have a: "snd (calculatePercentage defaults 15 130 (initial [])) = Some 100"
    by (simp add: calculatePercentage_def bands0f_def)
  have b: "snd (calculatePercentage defaults 15 60 (initial [])) = Some 80"
    by (simp add: calculatePercentage_def bands0f_def)
  show ?thesis
    using a b battery_lookup_pure_monotone
      [of defaults 15 130 "initial []" defaults "initial []" 60 130 100 80]
    by simp
qed

text \<open>
  C6, as stated, fails: 250 is an edge of the top band of the \<open>0x0e\<close> table and satisfies
  the comparison of no band, so a report with charge state \<open>0x0e\<close> and level byte 250 is
  assigned no percentage.
\<close>

theorem bands0e_boundary_counterexample:
  "magicValueOf (statusReport 0x0e 250) = 250 \<and> matching0e 250 = [] \<and>
   snd (calculatePercentage defaults (chargeStateOf (statusReport 0x0e 250))
          (magicValueOf (statusReport 0x0e 250)) (initial [])) = None \<and>
   snd (onData defaults quietHost 0 (statusReport 0x0e 250) (initial [])) = []"
  by (simp add: statusReport_def chargeStateOf_def magicValueOf_def onData_def
      calculatePercentage_def bands0e_def matching0e_def table0e_def)

text \<open>
  C6, amended: the bands of the \<open>0x0e\<close> table are pairwise disjoint, so every
  \<open>magicValue\<close> satisfies the comparison of at most one band, and the decoder returns the
  percentage of that band; the band edges 90, 119, 148, 159, 169, 180, 190, 200, 208 and 220
  satisfy exactly one comparison each (percentages 15, 20, 25, 30, 35, 40, 45, 50, 55, 60);
  250, like every larger value, satisfies none and is assigned no percentage.
\<close>

theorem bands0e_boundaries:
  "length (matching0e m) \<le> 1
   \<and> bands0e m = (case matching0e m of [] \<Rightarrow> None | p # ps \<Rightarrow> Some p)
   \<and> (m \<in> {90, 119, 148, 159, 169, 180, 190, 200, 208, 220} \<longrightarrow> length (matching0e m) = 1)
   \<and> map bands0e [90, 119, 148, 159, 169, 180, 190, 200, 208, 220]
       = map Some [15, 20, 25, 30, 35, 40, 45, 50, 55, 60]
   \<and> (250 \<le> m \<longrightarrow> matching0e m = [] \<and> snd (calculatePercentage opts 0x0e m s) = None)"
proof -
  have 1: "length (matching0e m) \<le> 1"
    by (simp add: matching0e_def table0e_def)
  have 2: "bands0e m = (case matching0e m of [] \<Rightarrow> None | p # ps \<Rightarrow> Some p)"
    by (simp add: bands0e_def matching0e_def table0e_def)
  have 3: "m \<in> {90, 119, 148, 159, 169, 180, 190, 200, 208, 220} \<Longrightarrow> length (matching0e m) = 1"
    by (auto simp add: matching0e_def table0e_def)
  have 4: "map bands0e [90, 119, 148, 159, 169, 180, 190, 200, 208, 220]
       = map Some [15, 20, 25, 30, 35, 40, 45, 50, 55, 60]"
    by (simp add: bands0e_def)
  have 5: "250 \<le> m \<Longrightarrow> matching0e m = []"
    by (simp add: matching0e_def table0e_def)
  have 6: "250 \<le> m \<Longrightarrow> snd (calculatePercentage opts 0x0e m s) = None"
    unfolding calculatePercentage_result by (simp add: bands0e_def)
  from 1 2 3 4 5 6 show ?thesis by blast
qed

theorem bands0e_boundaries_witness:
  "(90::nat) \<in> {90, 119, 148, 159, 169, 180, 190, 200, 208, 220} \<and> matching0e 90 = [15]
   \<and> bands0e 90 = Some 15
   \<and> (250::nat) \<le> 251 \<and> matching0e 251 = []
   \<and> snd (calculatePercentage defaults 0x0e 251 (initial [])) = None"
proof -
  have a: "matching0e 90 = [15]" by (simp add: matching0e_def table0e_def)
  show ?thesis
    using a bands0e_boundaries [of 90] bands0e_boundaries [of 251 defaults "initial []"]
    by simp
qed

section \<open>De-duplication of the power, muted and charging channels\<close>

lemma powerEvents_append: "powerEvents (xs @ ys) = powerEvents xs @ powerEvents ys"
  by (induction xs rule: powerEvents.induct) auto
lemma mutedEvents_append: "mutedEvents (xs @ ys) = mutedEvents xs @ mutedEvents ys"
  by (induction xs rule: mutedEvents.induct) auto
lemma chargingEvents_append: "chargingEvents (xs @ ys) = chargingEvents xs @ chargingEvents ys"
  by (induction xs rule: chargingEvents.induct) auto
lemma batteryEvents_append: "batteryEvents (xs @ ys) = batteryEvents xs @ batteryEvents ys"
  by (induction xs rule: batteryEvents.induct) auto

lemma errors_no_signal:
  "list_all isError ev \<Longrightarrow>
     powerEvents ev = [] \<and> mutedEvents ev = [] \<and> chargingEvents ev = [] \<and> batteryEvents ev = []
     \<and> nonErrors ev = []"
  by (induction ev) (auto simp: nonErrors_def elim: isError.elims)

lemma bootstrap_errors: "list_all isError (snd (bootstrap opts e s))"
  by (auto simp: bootstrap_def Let_def wakeup_def hidOpen_def
      split: timer_ref.splits option.splits prod.splits if_splits)

lemma bootstrap_last:
  "lastPower (fst (bootstrap opts e s)) = lastPower s"
  "lastMuted (fst (bootstrap opts e s)) = lastMuted s"
  "lastCharging (fst (bootstrap opts e s)) = lastCharging s"
  "lastBattery (fst (bootstrap opts e s)) = lastBattery s"
  "lastBatteryEmitTs (fst (bootstrap opts e s)) = lastBatteryEmitTs s"
  "devices (fst (bootstrap opts e s)) = devices s"
  "closeListeners (fst (bootstrap opts e s)) = closeListeners s"
  by (auto simp: bootstrap_def Let_def wakeup_def hidOpen_def setInterval_def
      split: timer_ref.splits option.splits prod.splits if_splits)

lemma onData_power_off:
  "onData opts e now [0x64, 0x03] s =
     emitPower opts Off ((clearInterval (interval s) s)\<lparr> interval := Null \<rparr>)"
  by (simp add: onData_def)

lemma onData_power_on:
  "onData opts e now [0x64, 0x01] s =
     (case emitPower opts On (fst (bootstrap opts e s)) of
        (s2, ev2) \<Rightarrow> (s2, snd (bootstrap opts e s) @ ev2))"
  by (simp add: onData_def split: prod.splits)

lemma onData_muted:
  assumes "length data = 2" "\<not> (data ! 0 = 0x64 \<and> (data ! 1 = 0x03 \<or> data ! 1 = 0x01))"
  shows "onData opts e now data s = emitMuted opts (data ! 0 = 0x65 \<and> data ! 1 = 0x04) s"
  using assms by (auto simp add: onData_def)

lemma clearInterval_last:
  "lastPower (clearInterval r s) = lastPower s"
  by (simp add: clearInterval_def split: timer_ref.splits)

lemma power_policy:
  "dedupePolicy (dedupe opts) (lastPower s) p
     (powerEvents (snd (onData opts e now (powerReport p) s)))
     (lastPower (fst (onData opts e now (powerReport p) s)))"
proof (cases p)
  case On
  have "powerEvents (snd (bootstrap opts e s)) = []"
    using errors_no_signal[OF bootstrap_errors] by blast
  then show ?thesis
    by (auto simp: On powerReport_def onData_power_on emitPower_def dedupePolicy_def
        powerEvents_append bootstrap_last split: prod.splits if_splits)
next
  case Off
  then show ?thesis
    by (auto simp: powerReport_def onData_power_off emitPower_def dedupePolicy_def
        clearInterval_last)
qed

lemma muted_policy:
  assumes "length data = 2" "\<not> (data ! 0 = 0x64 \<and> (data ! 1 = 0x03 \<or> data ! 1 = 0x01))"
  shows "dedupePolicy (dedupe opts) (lastMuted s) (data ! 0 = 0x65 \<and> data ! 1 = 0x04)
     (mutedEvents (snd (onData opts e now data s)))
     (lastMuted (fst (onData opts e now data s)))"
  unfolding onData_muted[OF assms]
  by (auto simp: emitMuted_def dedupePolicy_def)

lemma emitBattery_other:
  "lastCharging (fst (emitBattery opts now p s)) = lastCharging s"
  "chargingEvents (snd (emitBattery opts now p s)) = []"
  "lastPower (fst (emitBattery opts now p s)) = lastPower s"
  "powerEvents (snd (emitBattery opts now p s)) = []"
  "lastMuted (fst (emitBattery opts now p s)) = lastMuted s"
  "mutedEvents (snd (emitBattery opts now p s)) = []"
  by (auto simp: emitBattery_def Let_def)

lemma onData_status_state:
  assumes "length data = 15 \<or> length data = 20"
  shows "fst (onData opts e now data s) =
    (case snd (calculatePercentage opts (chargeStateOf data) (magicValueOf data) s) of
       None \<Rightarrow> fst (fst (calculatePercentage opts (chargeStateOf data) (magicValueOf data) s))
     | Some p \<Rightarrow> fst (emitBattery opts now p
          (fst (fst (calculatePercentage opts (chargeStateOf data) (magicValueOf data) s)))))"
  unfolding onData_status[OF assms]
  by (cases "calculatePercentage opts (chargeStateOf data) (magicValueOf data) s")
     (auto split: option.splits prod.splits)

lemma charging_policy:
  assumes "length data = 15 \<or> length data = 20" "chargeStateOf data = 0x10"
  shows "dedupePolicy (dedupe opts) (lastCharging s) (magicValueOf data \<ge> 20)
     (chargingEvents (snd (onData opts e now data s)))
     (lastCharging (fst (onData opts e now data s)))"
  unfolding onData_status_events[OF assms(1)] onData_status_state[OF assms(1)]
    calculatePercentage_effect
  by (auto simp: assms(2) chargingEvents_append emitBattery_other emitCharging_def dedupePolicy_def
      split: option.splits)

lemma charging_untouched:
  assumes "length data = 15 \<or> length data = 20" "chargeStateOf data \<noteq> 0x10"
  shows "chargingEvents (snd (onData opts e now data s)) = [] \<and>
     lastCharging (fst (onData opts e now data s)) = lastCharging s"
  unfolding onData_status_events[OF assms(1)] onData_status_state[OF assms(1)]
    calculatePercentage_effect
  by (auto simp: assms(2) chargingEvents_append emitBattery_other
      split: option.splits)

lemma lastOf_append: "lastOf (xs @ ys) = orElse (lastOf ys) (lastOf xs)"
  by (simp add: lastOf_def orElse_def)

lemma lastEmitted_append: "lastEmitted (xs @ ys) = overlay (lastEmitted ys) (lastEmitted xs)"
  by (simp add: lastEmitted_def lastOf_append powerEvents_append mutedEvents_append
      chargingEvents_append batteryEvents_append)

lemma lastEmitted_errors: "list_all isError ev \<Longrightarrow> lastEmitted ev = (None, None, None, None)"
  using errors_no_signal[of ev] by (simp add: lastEmitted_def lastOf_def)

lemma overlay_none [simp]: "overlay (None, None, None, None) x = x"
  by (cases x) (simp add: orElse_def)

lemma overlay_none_right [simp]: "overlay x (None, None, None, None) = x"
  by (cases x) (simp add: orElse_def split: option.splits)

lemma overlay_assoc: "overlay a (overlay b c) = overlay (overlay a b) c"
  by (cases a; cases b; cases c) (auto simp: orElse_def split: option.splits)

lemma emit_stored:
  "stored (fst (emitPower opts p s)) = overlay (lastEmitted (snd (emitPower opts p s))) (stored s)"
  "stored (fst (emitMuted opts m s)) = overlay (lastEmitted (snd (emitMuted opts m s))) (stored s)"
  "stored (fst (emitCharging opts c s)) = overlay (lastEmitted (snd (emitCharging opts c s))) (stored s)"
  "stored (fst (emitBattery opts now b s)) = overlay (lastEmitted (snd (emitBattery opts now b s))) (stored s)"
  by (auto simp: emitPower_def emitMuted_def emitCharging_def emitBattery_def Let_def lastOf_def
      orElse_def stored_def lastEmitted_def)

lemma bootstrap_stored: "stored (fst (bootstrap opts e s)) = stored s"
  by (simp add: stored_def bootstrap_last)

lemma calculatePercentage_stored:
  "stored (fst (fst (calculatePercentage opts cs mv s)))
     = overlay (lastEmitted (snd (fst (calculatePercentage opts cs mv s)))) (stored s)"
  unfolding calculatePercentage_effect
  by (simp add: emit_stored) (simp add: lastEmitted_def lastOf_def)

lemma onData_stored:
  "stored (fst (onData opts e now data s)) = overlay (lastEmitted (snd (onData opts e now data s))) (stored s)"
proof -
  consider (off) "data = [0x64, 0x03]" | (on) "data = [0x64, 0x01]"
    | (muted) "length data = 2" "\<not> (data ! 0 = 0x64 \<and> (data ! 1 = 0x03 \<or> data ! 1 = 0x01))"
    | (volume) "length data = 5" | (status) "length data = 15 \<or> length data = 20"
    | (unknown) "length data \<noteq> 2" "length data \<noteq> 5" "length data \<noteq> 15" "length data \<noteq> 20"
  proof -
    have "data = [data ! 0, data ! 1]" if "length data = 2"
      using that by (cases data; cases "tl data") auto
    then show ?thesis using that by (cases "length data = 2") metis+
  qed
  then show ?thesis
  proof cases
    case off
    have "stored ((clearInterval (interval s) s)\<lparr> interval := Null \<rparr>) = stored s"
      by (simp add: stored_def clearInterval_def split: timer_ref.splits)
    then show ?thesis unfolding off onData_power_off by (simp add: emit_stored)
  next
    case on
    obtain s2 ev2 where ep: "emitPower opts On (fst (bootstrap opts e s)) = (s2, ev2)"
      by (cases "emitPower opts On (fst (bootstrap opts e s))")
    have "stored s2 = overlay (lastEmitted ev2) (stored s)"
      using emit_stored(1)[of opts On "fst (bootstrap opts e s)"] ep
      by (simp add: bootstrap_stored)
    then show ?thesis unfolding on onData_power_on ep
      by (simp add: lastEmitted_append lastEmitted_errors[OF bootstrap_errors] )
  next
    case muted
    show ?thesis unfolding onData_muted[OF muted] by (rule emit_stored)
  next
    case volume
    then show ?thesis
      by (simp add: onData_def lastEmitted_def lastOf_def)
  next
    case status
    show ?thesis
      unfolding onData_status_events[OF status] onData_status_state[OF status]
      by (cases "snd (calculatePercentage opts (chargeStateOf data) (magicValueOf data) s)")
         (simp_all add: lastEmitted_append emit_stored calculatePercentage_stored overlay_assoc
             lastEmitted_def[of "[]"] lastOf_def)
  next
    case unknown
    then show ?thesis
      by (simp add: onData_def lastEmitted_def lastOf_def)
  qed
qed

section \<open>Stored values and emitted values over a session\<close>

lemma hidClose_frame: "hidClose h s = s\<lparr> handles := handles (hidClose h s) \<rparr>"
  by (simp add: hidClose_def)

lemma fold_hidClose_frame: "fold hidClose hs s = s\<lparr> handles := handles (fold hidClose hs s) \<rparr>"
proof (induction hs arbitrary: s)
  case Nil
  then show ?case by simp
next
  case (Cons h hs)
  have "fold hidClose hs (hidClose h s) = (hidClose h s)\<lparr> handles := handles (fold hidClose hs (hidClose h s)) \<rparr>"
    by (rule Cons.IH)
  also have "\<dots> = s\<lparr> handles := handles (fold hidClose hs (hidClose h s)) \<rparr>"
    by (subst hidClose_frame) simp
  finally show ?case by simp
qed

lemma onClose_frame: "onClose s = s\<lparr> handles := handles (onClose s) \<rparr>"
  unfolding onClose_def by (rule fold_hidClose_frame)

lemma onClose_fields:
  "stored (onClose s) = stored s"
  "interval (onClose s) = interval s"
  "timers (onClose s) = timers s"
  "timerCount (onClose s) = timerCount s"
  "closeListeners (onClose s) = closeListeners s"
  "bootstrapDevice (onClose s) = bootstrapDevice s"
  "devices (onClose s) = devices s"
  "writeLog (onClose s) = writeLog s"
  "openLog (onClose s) = openLog s"
  by (subst onClose_frame, simp add: stored_def)+

lemma step_stored:
  "stored (fst (step opts e i s)) = overlay (lastEmitted (snd (step opts e i s))) (stored s)"
proof (cases i)
  case (Report h data now)
  then show ?thesis
    by (simp add: step_def onData_stored) (simp add: lastEmitted_def lastOf_def)
next
  case (Tick t)
  then show ?thesis
    by (simp add: step_def bootstrap_stored lastEmitted_errors[OF bootstrap_errors])
       (simp add: lastEmitted_def lastOf_def)
next
  case (HidError h)
  then show ?thesis by (simp add: step_def lastEmitted_def lastOf_def)
next
  case Close
  then show ?thesis by (simp add: step_def onClose_fields lastEmitted_def lastOf_def)
qed

lemma run_stored:
  "stored (fst (run opts e ins s)) = overlay (lastEmitted (snd (run opts e ins s))) (stored s)"
proof (induction ins arbitrary: s)
  case Nil
  then show ?case by (simp add: lastEmitted_def lastOf_def)
next
  case (Cons i ins)
  obtain s1 ev1 where 1: "step opts e i s = (s1, ev1)" by (cases "step opts e i s")
  obtain s2 ev2 where 2: "run opts e ins s1 = (s2, ev2)" by (cases "run opts e ins s1")
  have a: "stored s1 = overlay (lastEmitted ev1) (stored s)"
    using step_stored[of opts e i s] 1 by simp
  have b: "stored s2 = overlay (lastEmitted ev2) (stored s1)"
    using Cons.IH[of s1] 2 by simp
  show ?case by (simp add: 1 2 a b lastEmitted_append overlay_assoc)
qed

lemma openAll_frame:
  "openAll e ds s = (s', ev) \<Longrightarrow>
     stored s' = stored s \<and> interval s' = interval s \<and> timers s' = timers s
     \<and> timerCount s' = timerCount s \<and> bootstrapDevice s' = bootstrapDevice s
     \<and> devices s' = devices s \<and> writeLog s' = writeLog s \<and> list_all isError ev"
proof (induction ds arbitrary: s s' ev)
  case Nil
  then show ?case by simp
next
  case (Cons d ds)
  show ?case
  proof (cases "openThrows e (length (openLog s)) (path d)")
    case True
    let ?s1 = "s\<lparr> openLog := openLog s @ [path d] \<rparr>"
    obtain s2 ev2 where r: "openAll e ds ?s1 = (s2, ev2)" by (cases "openAll e ds ?s1")
    from Cons.prems True r have eq: "s' = s2" "ev = EvError (OpenFailed (path d)) # ev2"
      by (simp_all add: hidOpen_def)
    from Cons.IH[OF r] show ?thesis by (simp add: eq stored_def)
  next
    case False
    let ?s1 = "s\<lparr> openLog := openLog s @ [path d],
               handles := handles s @ [\<lparr> hpath = path d, hopen = True, hcloses = 0 \<rparr>],
               closeListeners := closeListeners s @ [length (handles s)] \<rparr>"
    from Cons.prems False have r: "openAll e ds ?s1 = (s', ev)"
      by (simp add: hidOpen_def)
    from Cons.IH[OF r] show ?thesis by (simp add: stored_def)
  qed
qed

lemma create_stored:
  assumes "create opts e everything = Inr (s0, ev0)"
  shows "stored s0 = lastEmitted ev0"
proof -
  let ?ds = "selectDevices everything"
  obtain s1 ev1 where b: "bootstrap opts e (initial ?ds) = (s1, ev1)"
    by (cases "bootstrap opts e (initial ?ds)")
  obtain s2 ev2 where o: "openAll e ?ds s1 = (s2, ev2)" by (cases "openAll e ?ds s1")
  from assms b o have eq: "s0 = s2" "ev0 = ev1 @ ev2"
    by (auto simp: create_def Let_def split: if_splits)
  have e1: "list_all isError ev1" using bootstrap_errors[of opts e "initial ?ds"] b by simp
  have s1: "stored s1 = stored (initial ?ds)" using bootstrap_stored[of opts e "initial ?ds"] b by simp
  have "stored (initial ?ds) = (None, None, None, None)" by (simp add: stored_def initial_def)
  with openAll_frame[OF o] s1 e1 show ?thesis
    by (simp add: eq lastEmitted_append lastEmitted_errors)
qed

lemma stored_is_last_emitted:
  assumes "create opts e everything = Inr (s0, ev0)" and "run opts e ins s0 = (s, ev)"
  shows "stored s = lastEmitted (ev0 @ ev)"
  using run_stored[of opts e ins s0] create_stored[OF assms(1)] assms(2)
  by (simp add: lastEmitted_append)

lemmas session_defs =
  create_def selectDevices_def initial_def bootstrap_def bootstrapDeviceInfo_def isStatus_def
  hasStatusUsage_def setInterval_def hidOpen_def wakeup_def quietHost_def defaults_def
  VENDOR_ID_def SUPPORTED_PRODUCT_IDS_def STATUS_USAGE_def STATUS_USAGEPAGES_def
  statusInterface_def controlInterface_def Let_def

lemma create_statusSession:
  "create defaults quietHost [statusInterface] = Inr (statusSession, [])"
  by (simp add: session_defs statusSession_def)

lemma create_controlSession:
  "create defaults quietHost [controlInterface]
     = Inr (controlSession, [EvError StatusInterfaceNotFound])"
  by (simp add: session_defs controlSession_def)

lemma twice_power:
  "dedupe opts \<Longrightarrow> powerEvents (snd (twice opts e now now' (powerReport p) s)) = []"
  using power_policy[of opts s p e now]
    power_policy[of opts "fst (onData opts e now (powerReport p) s)" p e now']
  by (simp add: twice_def dedupePolicy_def)

lemma twice_muted:
  assumes "length data = 2" "\<not> (data ! 0 = 0x64 \<and> (data ! 1 = 0x03 \<or> data ! 1 = 0x01))"
    and "dedupe opts"
  shows "mutedEvents (snd (twice opts e now now' data s)) = []"
  using muted_policy[OF assms(1,2), of opts s e now]
    muted_policy[OF assms(1,2), of opts "fst (onData opts e now data s)" e now'] assms(3)
  by (simp add: twice_def dedupePolicy_def)

lemma twice_charging:
  assumes "length data = 15 \<or> length data = 20" "chargeStateOf data = 0x10"
    and "dedupe opts"
  shows "chargingEvents (snd (twice opts e now now' data s)) = []"
  using charging_policy[OF assms(1,2), of opts s e now]
    charging_policy[OF assms(1,2), of opts "fst (onData opts e now data s)" e now'] assms(3)
  by (simp add: twice_def dedupePolicy_def)

text \<open>
  C3: in every session, the stored last value of the power, muted and charging channels
  is the last value emitted on that channel (none before the first emission). A decode of
  a power report, of a mute report or of the charging state of a status report follows the
  de-duplication policy: with \<open>dedupe\<close> on it is emitted iff it differs from the last
  emitted value of its channel, with \<open>dedupe\<close> off it is always emitted, and afterwards
  the stored value is the decoded one whether or not an event went out. Of two deliveries
  of the same report in succession the second emits nothing on the channel, and the first
  emits exactly one event when its value differs from the last one emitted before.
\<close>

theorem dedupe_power_muted_charging:
  assumes "create opts e everything = Inr (s0, ev0)" and "run opts e ins s0 = (s, ev)"
  shows
    "lastPower s = lastOf (powerEvents (ev0 @ ev))
     \<and> lastMuted s = lastOf (mutedEvents (ev0 @ ev))
     \<and> lastCharging s = lastOf (chargingEvents (ev0 @ ev))
     \<and> dedupePolicy (dedupe opts) (lastOf (powerEvents (ev0 @ ev))) p
          (powerEvents (snd (onData opts e now (powerReport p) s)))
          (lastPower (fst (onData opts e now (powerReport p) s)))
     \<and> (length d2 = 2 \<and> \<not> (d2 ! 0 = 0x64 \<and> (d2 ! 1 = 0x03 \<or> d2 ! 1 = 0x01)) \<longrightarrow>
          dedupePolicy (dedupe opts) (lastOf (mutedEvents (ev0 @ ev)))
            (d2 ! 0 = 0x65 \<and> d2 ! 1 = 0x04)
            (mutedEvents (snd (onData opts e now d2 s)))
            (lastMuted (fst (onData opts e now d2 s)))
          \<and> (dedupe opts \<longrightarrow> mutedEvents (snd (twice opts e now now' d2 s)) = []))
     \<and> ((length d3 = 15 \<or> length d3 = 20) \<and> chargeStateOf d3 = 0x10 \<longrightarrow>
          dedupePolicy (dedupe opts) (lastOf (chargingEvents (ev0 @ ev)))
            (magicValueOf d3 \<ge> 20)
            (chargingEvents (snd (onData opts e now d3 s)))
            (lastCharging (fst (onData opts e now d3 s)))
          \<and> (dedupe opts \<longrightarrow> chargingEvents (snd (twice opts e now now' d3 s)) = []))
     \<and> (dedupe opts \<longrightarrow> powerEvents (snd (twice opts e now now' (powerReport p) s)) = [])"
proof -
  have st: "stored s = lastEmitted (ev0 @ ev)"
    by (rule stored_is_last_emitted[OF assms])
  then have 1: "lastPower s = lastOf (powerEvents (ev0 @ ev))"
    and 2: "lastMuted s = lastOf (mutedEvents (ev0 @ ev))"
    and 3: "lastCharging s = lastOf (chargingEvents (ev0 @ ev))"
    by (simp_all add: stored_def lastEmitted_def)
  note 4 = power_policy[of opts s p e now, unfolded 1]
  have 5: "dedupePolicy (dedupe opts) (lastOf (mutedEvents (ev0 @ ev)))
            (d2 ! 0 = 0x65 \<and> d2 ! 1 = 0x04)
            (mutedEvents (snd (onData opts e now d2 s)))
            (lastMuted (fst (onData opts e now d2 s)))
          \<and> (dedupe opts \<longrightarrow> mutedEvents (snd (twice opts e now now' d2 s)) = [])"
    if "length d2 = 2" "\<not> (d2 ! 0 = 0x64 \<and> (d2 ! 1 = 0x03 \<or> d2 ! 1 = 0x01))"
    using muted_policy[OF that, of opts s e now] twice_muted[OF that, of opts e now now' s]
    by (simp add: 2)
  have 6: "dedupePolicy (dedupe opts) (lastOf (chargingEvents (ev0 @ ev)))
            (magicValueOf d3 \<ge> 20)
            (chargingEvents (snd (onData opts e now d3 s)))
            (lastCharging (fst (onData opts e now d3 s)))
          \<and> (dedupe opts \<longrightarrow> chargingEvents (snd (twice opts e now now' d3 s)) = [])"
    if "length d3 = 15 \<or> length d3 = 20" "chargeStateOf d3 = 0x10"
    using charging_policy[OF that, of opts s e now] twice_charging[OF that, of opts e now now' s]
    by (simp add: 3)
  have 7: "dedupe opts \<longrightarrow> powerEvents (snd (twice opts e now now' (powerReport p) s)) = []"
    using twice_power by blast
  from 1 2 3 4 5 6 7 show ?thesis by blast
qed

theorem dedupe_power_muted_charging_witness:
  "create defaults quietHost [statusInterface] = Inr (statusSession, [])
   \<and> run defaults quietHost [] statusSession = (statusSession, [])
   \<and> powerEvents (snd (onData defaults quietHost 5 (powerReport Off) statusSession)) = [Off]
   \<and> lastPower (fst (onData defaults quietHost 5 (powerReport Off) statusSession)) = Some Off
   \<and> mutedEvents (fst (twice defaults quietHost 5 6 [0x65, 0x04] statusSession)) = [True]
   \<and> mutedEvents (snd (twice defaults quietHost 5 6 [0x65, 0x04] statusSession)) = []
   \<and> chargingEvents (fst (twice defaults quietHost 5 6 (statusReport 0x10 30) statusSession))
       = [True]
   \<and> chargingEvents (snd (twice defaults quietHost 5 6 (statusReport 0x10 30) statusSession))
       = []"
proof -
  have c: "create defaults quietHost [statusInterface] = Inr (statusSession, [])"
    by (rule create_statusSession)
  have r: "run defaults quietHost [] statusSession = (statusSession, [])" by simp
  have d: "dedupe defaults" by (simp add: defaults_def)
  have m: "length [0x65, 0x04 :: byte] = 2
     \<and> \<not> ([0x65, 0x04 :: byte] ! 0 = 0x64 \<and> ([0x65, 0x04 :: byte] ! 1 = 0x03 \<or> [0x65, 0x04 :: byte] ! 1 = 0x01))"
    by simp
  have g: "(length (statusReport 0x10 30) = 15 \<or> length (statusReport 0x10 30) = 20)
     \<and> chargeStateOf (statusReport 0x10 30) = 0x10 \<and> magicValueOf (statusReport 0x10 30) \<ge> 20"
    by (simp add: statusReport_def chargeStateOf_def magicValueOf_def)
  show ?thesis
    using c r d m g
      dedupe_power_muted_charging [OF c r, of Off 5 "[0x65, 0x04]" 6 "statusReport 0x10 30"]
    by (simp add: dedupePolicy_def lastOf_def twice_def)
qed

section \<open>The battery channel\<close>

lemma calculatePercentage_battery_fields:
  "lastBattery (fst (fst (calculatePercentage opts cs mv s))) = lastBattery s"
  "lastBatteryEmitTs (fst (fst (calculatePercentage opts cs mv s))) = lastBatteryEmitTs s"
  unfolding calculatePercentage_effect by (simp_all add: emitCharging_def)

lemma calculatePercentage_no_battery:
  "batteryEvents (snd (fst (calculatePercentage opts cs mv s))) = []"
  unfolding calculatePercentage_effect by (simp add: emitCharging_def)

lemma battery_emission:
  assumes "length data = 15 \<or> length data = 20"
    and "snd (calculatePercentage opts (chargeStateOf data) (magicValueOf data) s) = Some p"
  shows "batteryEvents (snd (onData opts e now data s)) =
           (if \<not> dedupe opts \<or> lastBattery s \<noteq> Some p
               \<or> batteryMinIntervalMs opts \<le> now - lastBatteryEmitTs s then [p] else [])"
    and "lastBattery (fst (onData opts e now data s)) =
           (if batteryEvents (snd (onData opts e now data s)) = [] then lastBattery s else Some p)"
    and "lastBatteryEmitTs (fst (onData opts e now data s)) =
           (if batteryEvents (snd (onData opts e now data s)) = [] then lastBatteryEmitTs s
            else now)"
  unfolding onData_status_events[OF assms(1)] onData_status_state[OF assms(1)] assms(2)
  by (auto simp: batteryEvents_append calculatePercentage_no_battery
      calculatePercentage_battery_fields emitBattery_def Let_def)

lemma onData_emit_time:
  "lastBatteryEmitTs (fst (onData opts e now data s)) =
     (if batteryEvents (snd (onData opts e now data s)) = [] then lastBatteryEmitTs s else now)"
proof -
  consider (off) "data = [0x64, 0x03]" | (on) "data = [0x64, 0x01]"
    | (muted) "length data = 2" "\<not> (data ! 0 = 0x64 \<and> (data ! 1 = 0x03 \<or> data ! 1 = 0x01))"
    | (volume) "length data = 5" | (status) "length data = 15 \<or> length data = 20"
    | (unknown) "length data \<noteq> 2" "length data \<noteq> 5" "length data \<noteq> 15" "length data \<noteq> 20"
  proof -
    have "data = [data ! 0, data ! 1]" if "length data = 2"
      using that by (cases data; cases "tl data") auto
    then show ?thesis using that by (cases "length data = 2") metis+
  qed
  then show ?thesis
  proof cases
    case off
    show ?thesis unfolding off onData_power_off
      by (simp add: emitPower_def clearInterval_def split: timer_ref.splits)
  next
    case on
    have "batteryEvents (snd (bootstrap opts e s)) = []"
      using errors_no_signal[OF bootstrap_errors] by blast
    then show ?thesis unfolding on onData_power_on
      by (simp add: emitPower_def bootstrap_last batteryEvents_append)
  next
    case muted
    show ?thesis unfolding onData_muted[OF muted] by (simp add: emitMuted_def)
  next
    case volume
    then show ?thesis by (simp add: onData_def)
  next
    case status
    show ?thesis
      unfolding onData_status_events[OF status] onData_status_state[OF status]
      by (simp add: batteryEvents_append calculatePercentage_no_battery
          calculatePercentage_battery_fields emitBattery_def Let_def split: option.splits)
  next
    case unknown
    then show ?thesis by (simp add: onData_def)
  qed
qed

lemma onData_battery_count:
  "length (batteryEvents (snd (onData opts e now data s))) \<le> 1"
proof -
  consider (off) "data = [0x64, 0x03]" | (on) "data = [0x64, 0x01]"
    | (muted) "length data = 2" "\<not> (data ! 0 = 0x64 \<and> (data ! 1 = 0x03 \<or> data ! 1 = 0x01))"
    | (volume) "length data = 5" | (status) "length data = 15 \<or> length data = 20"
    | (unknown) "length data \<noteq> 2" "length data \<noteq> 5" "length data \<noteq> 15" "length data \<noteq> 20"
  proof -
    have "data = [data ! 0, data ! 1]" if "length data = 2"
      using that by (cases data; cases "tl data") auto
    then show ?thesis using that by (cases "length data = 2") metis+
  qed
  then show ?thesis
  proof cases
    case off
    show ?thesis unfolding off onData_power_off by (simp add: emitPower_def)
  next
    case on
    have "batteryEvents (snd (bootstrap opts e s)) = []"
      using errors_no_signal[OF bootstrap_errors] by blast
    then show ?thesis unfolding on onData_power_on
      by (simp add: emitPower_def batteryEvents_append)
  next
    case muted
    show ?thesis unfolding onData_muted[OF muted] by (simp add: emitMuted_def)
  next
    case volume
    then show ?thesis by (simp add: onData_def)
  next
    case status
    show ?thesis
      unfolding onData_status_events[OF status]
      by (simp add: batteryEvents_append calculatePercentage_no_battery emitBattery_def Let_def
          split: option.splits)
  next
    case unknown
    then show ?thesis by (simp add: onData_def)
  qed
qed

lemma onClose_emit_time: "lastBatteryEmitTs (onClose s) = lastBatteryEmitTs s"
  by (subst onClose_frame) simp

lemma step_emit_count:
  "length (stepEmitTimes i (snd (step opts e i s)))
     = length (batteryEvents (snd (step opts e i s)))"
proof -
  have be: "batteryEvents (snd (bootstrap opts e s)) = []"
    using errors_no_signal[OF bootstrap_errors] by blast
  show ?thesis
    by (cases i) (simp_all add: stepEmitTimes_def step_def be)
qed

lemma step_emit_time:
  "lastBatteryEmitTs (fst (step opts e i s)) =
     (case lastOf (stepEmitTimes i (snd (step opts e i s))) of
        None \<Rightarrow> lastBatteryEmitTs s | Some t \<Rightarrow> t)"
proof (cases i)
  case (Report h data now)
  show ?thesis
    by (simp add: Report stepEmitTimes_def step_def onData_emit_time lastOf_def last_map)
next
  case (Tick t)
  then show ?thesis
    by (simp add: stepEmitTimes_def step_def lastOf_def bootstrap_last)
next
  case (HidError h)
  then show ?thesis by (simp add: stepEmitTimes_def step_def lastOf_def)
next
  case Close
  then show ?thesis by (simp add: stepEmitTimes_def step_def lastOf_def onClose_emit_time)
qed

lemma step_battery_frame:
  assumes "batteryEvents (snd (step opts e i s)) = []"
  shows "lastBatteryEmitTs (fst (step opts e i s)) = lastBatteryEmitTs s"
    and "lastBattery (fst (step opts e i s)) = lastBattery s"
proof -
  from assms step_emit_count[of i opts e s]
  have "stepEmitTimes i (snd (step opts e i s)) = []" by simp
  with step_emit_time[of opts e i s]
  show "lastBatteryEmitTs (fst (step opts e i s)) = lastBatteryEmitTs s"
    by (simp add: lastOf_def)
  from step_stored[of opts e i s] assms
  show "lastBattery (fst (step opts e i s)) = lastBattery s"
    by (cases "lastEmitted (snd (step opts e i s))")
       (simp add: stored_def lastEmitted_def lastOf_def orElse_def)
qed

lemma run_emit_time:
  "lastBatteryEmitTs (fst (run opts e ins s)) =
     (case lastOf (batteryEmitTimes opts e ins s) of None \<Rightarrow> lastBatteryEmitTs s | Some t \<Rightarrow> t)
   \<and> length (batteryEmitTimes opts e ins s) = length (batteryEvents (snd (run opts e ins s)))"
proof (induction ins arbitrary: s)
  case Nil
  then show ?case by (simp add: lastOf_def)
next
  case (Cons i ins)
  obtain s1 ev1 where 1: "step opts e i s = (s1, ev1)" by (cases "step opts e i s")
  obtain s2 ev2 where 2: "run opts e ins s1 = (s2, ev2)" by (cases "run opts e ins s1")
  have a: "lastBatteryEmitTs s1 =
     (case lastOf (stepEmitTimes i ev1) of None \<Rightarrow> lastBatteryEmitTs s | Some t \<Rightarrow> t)"
    and b: "length (stepEmitTimes i ev1) = length (batteryEvents ev1)"
    using step_emit_time[of opts e i s] step_emit_count[of i opts e s] 1 by simp_all
  have c: "lastBatteryEmitTs s2 =
     (case lastOf (batteryEmitTimes opts e ins s1) of None \<Rightarrow> lastBatteryEmitTs s1 | Some t \<Rightarrow> t)"
    and d: "length (batteryEmitTimes opts e ins s1) = length (batteryEvents ev2)"
    using Cons.IH[of s1] 2 by simp_all
  show ?case
    by (simp add: 1 2 a b c d batteryEvents_append lastOf_append orElse_def split: option.splits)
qed

lemma openAll_emit_time:
  "openAll e ds s = (s', ev) \<Longrightarrow> lastBatteryEmitTs s' = lastBatteryEmitTs s"
proof (induction ds arbitrary: s s' ev)
  case Nil
  then show ?case by simp
next
  case (Cons d ds)
  show ?case
  proof (cases "openThrows e (length (openLog s)) (path d)")
    case True
    let ?s1 = "s\<lparr> openLog := openLog s @ [path d] \<rparr>"
    obtain s2 ev2 where r: "openAll e ds ?s1 = (s2, ev2)" by (cases "openAll e ds ?s1")
    from Cons.prems True r have eq: "s' = s2" by (simp add: hidOpen_def)
    from Cons.IH[OF r] show ?thesis by (simp add: eq)
  next
    case False
    let ?s1 = "s\<lparr> openLog := openLog s @ [path d],
               handles := handles s @ [\<lparr> hpath = path d, hopen = True, hcloses = 0 \<rparr>],
               closeListeners := closeListeners s @ [length (handles s)] \<rparr>"
    from Cons.prems False have r: "openAll e ds ?s1 = (s', ev)" by (simp add: hidOpen_def)
    from Cons.IH[OF r] show ?thesis by simp
  qed
qed

lemma create_emit_time:
  assumes "create opts e everything = Inr (s0, ev0)"
  shows "lastBatteryEmitTs s0 = 0" and "batteryEvents ev0 = []"
proof -
  let ?ds = "selectDevices everything"
  obtain s1 ev1 where b: "bootstrap opts e (initial ?ds) = (s1, ev1)"
    by (cases "bootstrap opts e (initial ?ds)")
  obtain s2 ev2 where o: "openAll e ?ds s1 = (s2, ev2)" by (cases "openAll e ?ds s1")
  from assms b o have eq: "s0 = s2" "ev0 = ev1 @ ev2"
    by (auto simp: create_def Let_def split: if_splits)
  have "lastBatteryEmitTs s1 = 0"
    using bootstrap_last(5)[of opts e "initial ?ds"] b by (simp add: initial_def)
  with openAll_emit_time[OF o] show "lastBatteryEmitTs s0 = 0" by (simp add: eq)
  have "list_all isError ev1" using bootstrap_errors[of opts e "initial ?ds"] b by simp
  with openAll_frame[OF o] show "batteryEvents ev0 = []"
    using errors_no_signal[of ev1] errors_no_signal[of ev2]
    by (simp add: eq batteryEvents_append)
qed

lemma session_emit_time:
  assumes "create opts e everything = Inr (s0, ev0)" and "run opts e ins s0 = (s, ev)"
  shows "lastBatteryEmitTs s = lastEmitTime (batteryEmitTimes opts e ins s0)"
    and "length (batteryEmitTimes opts e ins s0) = length (batteryEvents (ev0 @ ev))"
  using run_emit_time[of opts e ins s0] create_emit_time[OF assms(1)] assms(2)
  by (simp_all add: lastEmitTime_def batteryEvents_append split: option.splits)

text \<open>
  C4: in every session the stored battery value is the last battery value emitted and the
  stored time is the time of the last battery emission of the session (0 before the
  first); no step without a battery event changes either. For a status report whose
  percentage \<open>p\<close> is determined, with \<open>dedupe\<close> on a battery event is emitted iff \<open>p\<close>
  differs from the last emitted battery value or at least \<open>batteryMinIntervalMs\<close> (15000
  by default) have passed since the last battery emission; with \<open>dedupe\<close> off it is
  always emitted. An emission records \<open>p\<close> and the current time, no emission leaves both
  as they were. Hence an unchanged value emits nothing before the interval has passed, one
  event once it has, and nothing again within the next interval.
\<close>

theorem battery_heartbeat:
  assumes "create opts e everything = Inr (s0, ev0)" and "run opts e ins s0 = (s, ev)"
    and "length data = 15 \<or> length data = 20"
    and "snd (calculatePercentage opts (chargeStateOf data) (magicValueOf data) s) = Some p"
  shows
    "lastBattery s = lastOf (batteryEvents (ev0 @ ev))
     \<and> batteryEvents (snd (onData opts e now data s)) =
         (if \<not> dedupe opts \<or> lastOf (batteryEvents (ev0 @ ev)) \<noteq> Some p
             \<or> batteryMinIntervalMs opts \<le> now - lastBatteryEmitTs s then [p] else [])
     \<and> (batteryEvents (snd (onData opts e now data s)) = [p] \<longrightarrow>
          lastBattery (fst (onData opts e now data s)) = Some p
          \<and> lastBatteryEmitTs (fst (onData opts e now data s)) = now)
     \<and> (batteryEvents (snd (onData opts e now data s)) = [] \<longrightarrow>
          lastBattery (fst (onData opts e now data s)) = lastBattery s
          \<and> lastBatteryEmitTs (fst (onData opts e now data s)) = lastBatteryEmitTs s)
     \<and> (dedupe opts \<and> batteryEvents (fst (twice opts e now now' data s)) = [p] \<longrightarrow>
          batteryEvents (snd (twice opts e now now' data s)) =
            (if batteryMinIntervalMs opts \<le> now' - now then [p] else []))
     \<and> batteryMinIntervalMs defaults = 15000
     \<and> lastBatteryEmitTs s = lastEmitTime (batteryEmitTimes opts e ins s0)
     \<and> length (batteryEmitTimes opts e ins s0) = length (batteryEvents (ev0 @ ev))
     \<and> batteryEvents (snd (onData opts e now data s)) =
         (if \<not> dedupe opts \<or> lastOf (batteryEvents (ev0 @ ev)) \<noteq> Some p
             \<or> batteryMinIntervalMs opts \<le> now - lastEmitTime (batteryEmitTimes opts e ins s0)
          then [p] else [])
     \<and> (batteryEvents (snd (step opts e i s)) = [] \<longrightarrow>
          lastBattery (fst (step opts e i s)) = lastBattery s
          \<and> lastBatteryEmitTs (fst (step opts e i s)) = lastBatteryEmitTs s)"
proof -
  let ?s1 = "fst (onData opts e now data s)"
  have "stored s = lastEmitted (ev0 @ ev)"
    by (rule stored_is_last_emitted[OF assms(1,2)])
  then have 1: "lastBattery s = lastOf (batteryEvents (ev0 @ ev))"
    by (simp add: stored_def lastEmitted_def)
  note b = battery_emission[OF assms(3,4), of e now]
  have 2: "batteryEvents (snd (onData opts e now data s)) =
         (if \<not> dedupe opts \<or> lastOf (batteryEvents (ev0 @ ev)) \<noteq> Some p
             \<or> batteryMinIntervalMs opts \<le> now - lastBatteryEmitTs s then [p] else [])"
    using b(1) by (simp add: 1)
  have 3: "batteryEvents (snd (onData opts e now data s)) = [p] \<Longrightarrow>
          lastBattery ?s1 = Some p \<and> lastBatteryEmitTs ?s1 = now"
    using b(2,3) by simp
  have 4: "batteryEvents (snd (onData opts e now data s)) = [] \<Longrightarrow>
          lastBattery ?s1 = lastBattery s \<and> lastBatteryEmitTs ?s1 = lastBatteryEmitTs s"
    using b(2,3) by simp
  have again: "snd (calculatePercentage opts (chargeStateOf data) (magicValueOf data) ?s1) = Some p"
    using assms(4) by (simp add: calculatePercentage_result)
  have 5: "batteryEvents (snd (twice opts e now now' data s)) =
            (if batteryMinIntervalMs opts \<le> now' - now then [p] else [])"
    if "dedupe opts" "batteryEvents (fst (twice opts e now now' data s)) = [p]"
  proof -
    from that(2) have "batteryEvents (snd (onData opts e now data s)) = [p]"
      by (simp add: twice_def)
    from 3[OF this] battery_emission(1)[OF assms(3) again, of e now'] that(1)
    show ?thesis by (simp add: twice_def)
  qed
  have 6: "batteryMinIntervalMs defaults = 15000" by (simp add: defaults_def)
  note 7 = session_emit_time(1)[OF assms(1,2)] and 8 = session_emit_time(2)[OF assms(1,2)]
  note 9 = 2[unfolded 7]
  have 10: "batteryEvents (snd (step opts e i s)) = [] \<Longrightarrow>
          lastBattery (fst (step opts e i s)) = lastBattery s
          \<and> lastBatteryEmitTs (fst (step opts e i s)) = lastBatteryEmitTs s"
    using step_battery_frame[of opts e i s] by simp
  from 1 2 3 4 5 6 7 8 9 10 show ?thesis by blast
qed

theorem battery_heartbeat_witness:
  "create defaults quietHost [statusInterface] = Inr (statusSession, [])
   \<and> run defaults quietHost
         [Report 1 (statusReport 0x0f 60) 1000, Report 1 [0x65, 0x04] 1002] statusSession
       = (statusSession\<lparr> lastBattery := Some 80, lastBatteryEmitTs := 1000,
                          lastMuted := Some True \<rparr>, [EvBattery 80, EvMuted True])
   \<and> (length (statusReport 0x0f 60) = 15 \<or> length (statusReport 0x0f 60) = 20)
   \<and> batteryEmitTimes defaults quietHost
         [Report 1 (statusReport 0x0f 60) 1000, Report 1 [0x65, 0x04] 1002] statusSession
       = [1000]
   \<and> batteryEvents (snd (onData defaults quietHost 1003 (statusReport 0x0f 60)
        (statusSession\<lparr> lastBattery := Some 80, lastBatteryEmitTs := 1000,
                          lastMuted := Some True \<rparr>))) = []
   \<and> batteryEvents (snd (onData defaults quietHost 15999 (statusReport 0x0f 60)
        (statusSession\<lparr> lastBattery := Some 80, lastBatteryEmitTs := 1000,
                          lastMuted := Some True \<rparr>))) = []
   \<and> batteryEvents (snd (onData defaults quietHost 16000 (statusReport 0x0f 60)
        (statusSession\<lparr> lastBattery := Some 80, lastBatteryEmitTs := 1000,
                          lastMuted := Some True \<rparr>))) = [80]"
proof -
  let ?s1 = "statusSession\<lparr> lastBattery := Some 80, lastBatteryEmitTs := 1000 \<rparr>"
  let ?s = "statusSession\<lparr> lastBattery := Some 80, lastBatteryEmitTs := 1000,
                            lastMuted := Some True \<rparr>"
  let ?ins = "[Report 1 (statusReport 0x0f 60) 1000, Report 1 [0x65, 0x04] 1002]"
  have c: "create defaults quietHost [statusInterface] = Inr (statusSession, [])"
    by (rule create_statusSession)
  have l: "length (statusReport 0x0f 60) = 15 \<or> length (statusReport 0x0f 60) = 20"
    by (simp add: statusReport_def)
  have f: "chargeStateOf (statusReport 0x0f 60) = 15" "magicValueOf (statusReport 0x0f 60) = 60"
    by (simp_all add: statusReport_def chargeStateOf_def magicValueOf_def)
  have p: "snd (calculatePercentage defaults (chargeStateOf (statusReport 0x0f 60))
             (magicValueOf (statusReport 0x0f 60)) s) = Some 80" for s
    by (simp add: f calculatePercentage_result bands0f_def)
  have o1: "onData defaults quietHost 1000 (statusReport 0x0f 60) statusSession
              = (?s1, [EvBattery 80])"
    unfolding onData_status[OF l] f
    by (simp add: calculatePercentage_def bands0f_def emitBattery_def statusSession_def defaults_def)
  have o2: "onData defaults quietHost 1002 [0x65, 0x04] ?s1 = (?s, [EvMuted True])"
    by (simp add: onData_def emitMuted_def statusSession_def defaults_def)
  have g: "step defaults quietHost (Report 1 (statusReport 0x0f 60) 1000) statusSession
             = (?s1, [EvBattery 80])"
    "step defaults quietHost (Report 1 [0x65, 0x04] 1002) ?s1 = (?s, [EvMuted True])"
    by (simp_all add: step_def o1 o2) (simp_all add: statusSession_def)
  have r: "run defaults quietHost ?ins statusSession = (?s, [EvBattery 80, EvMuted True])"
    by (simp only: run.simps g prod.case) simp
  have t: "batteryEmitTimes defaults quietHost ?ins statusSession = [1000]"
    by (simp only: batteryEmitTimes.simps g fst_conv snd_conv) (simp add: stepEmitTimes_def)
  show ?thesis
    using c r l t battery_heartbeat [OF c r l p, of 1003] battery_heartbeat [OF c r l p, of 15999]
      battery_heartbeat [OF c r l p, of 16000]
    by (simp add: defaults_def lastOf_def lastEmitTime_def)
qed

section \<open>The repeating timer over a session\<close>

lemma bootstrap_timer:
  "\<exists>t. interval (fst (bootstrap opts e s)) = Timer t"
  by (auto simp: bootstrap_def Let_def wakeup_def hidOpen_def setInterval_def
      split: timer_ref.splits option.splits prod.splits if_splits)

lemma bootstrap_timerOk:
  "timerOk s \<Longrightarrow> timerOk (fst (bootstrap opts e s)) \<and> armed (fst (bootstrap opts e s))"
  by (auto simp: bootstrap_def Let_def wakeup_def hidOpen_def setInterval_def timerOk_def armed_def
      split: timer_ref.splits option.splits prod.splits if_splits)

lemma emit_scheduler:
  "scheduler (fst (emitPower opts p s)) = scheduler s"
  "scheduler (fst (emitMuted opts m s)) = scheduler s"
  "scheduler (fst (emitCharging opts c s)) = scheduler s"
  "scheduler (fst (emitBattery opts now b s)) = scheduler s"
  by (simp_all add: scheduler_def emitPower_def emitMuted_def emitCharging_def emitBattery_def
      Let_def)

lemma scheduler_timerOk: "scheduler s' = scheduler s \<Longrightarrow> timerOk s' = timerOk s \<and> armed s' = armed s"
  by (auto simp: scheduler_def timerOk_def armed_def split: timer_ref.splits)

lemma timerOk_cong:
  "interval s' = interval s \<Longrightarrow> timers s' = timers s \<Longrightarrow> timerCount s' = timerCount s
     \<Longrightarrow> timerOk s' = timerOk s \<and> armed s' = armed s"
  by (auto simp: timerOk_def armed_def split: timer_ref.splits)

lemma power_off_scheduler:
  "scheduler (fst (onData opts e now [0x64, 0x03] s))
     = scheduler ((clearInterval (interval s) s)\<lparr> interval := Null \<rparr>)"
  unfolding onData_power_off by (rule emit_scheduler)

lemma power_on_scheduler:
  "scheduler (fst (onData opts e now [0x64, 0x01] s)) = scheduler (fst (bootstrap opts e s))"
  unfolding onData_power_on
  using emit_scheduler(1)[of opts On "fst (bootstrap opts e s)"]
  by (cases "emitPower opts On (fst (bootstrap opts e s))") simp

lemma power_off_disarms:
  assumes "timerOk s"
  shows "timers (fst (onData opts e now [0x64, 0x03] s)) = []"
    and "interval (fst (onData opts e now [0x64, 0x03] s)) = Null"
    and "timerOk (fst (onData opts e now [0x64, 0x03] s))"
    and "\<not> armed (fst (onData opts e now [0x64, 0x03] s))"
proof -
  let ?c = "(clearInterval (interval s) s)\<lparr> interval := Null \<rparr>"
  have c: "timers ?c = []" "interval ?c = Null"
    using assms by (auto simp: clearInterval_def timerOk_def split: timer_ref.splits)
  show "timers (fst (onData opts e now [0x64, 0x03] s)) = []"
    and "interval (fst (onData opts e now [0x64, 0x03] s)) = Null"
    using power_off_scheduler[of opts e now s] c by (simp_all add: scheduler_def)
  then show "timerOk (fst (onData opts e now [0x64, 0x03] s))"
    and "\<not> armed (fst (onData opts e now [0x64, 0x03] s))"
    by (simp_all add: timerOk_def armed_def)
qed


lemma onData_scheduler_other:
  assumes "data \<noteq> [0x64, 0x03]" "data \<noteq> [0x64, 0x01]"
  shows "scheduler (fst (onData opts e now data s)) = scheduler s"
proof -
  consider (muted) "length data = 2" "\<not> (data ! 0 = 0x64 \<and> (data ! 1 = 0x03 \<or> data ! 1 = 0x01))"
    | (volume) "length data = 5" | (status) "length data = 15 \<or> length data = 20"
    | (unknown) "length data \<noteq> 2" "length data \<noteq> 5" "length data \<noteq> 15" "length data \<noteq> 20"
  proof -
    have "data = [data ! 0, data ! 1]" if "length data = 2"
      using that by (cases data; cases "tl data") auto
    then show ?thesis using that assms by (cases "length data = 2") metis+
  qed
  then show ?thesis
  proof cases
    case muted
    show ?thesis unfolding onData_muted[OF muted] by (rule emit_scheduler)
  next
    case volume
    then show ?thesis by (simp add: onData_def)
  next
    case status
    have "scheduler (fst (fst (calculatePercentage opts cs mv s))) = scheduler s" for cs mv
      unfolding calculatePercentage_effect by (simp add: emit_scheduler)
    then show ?thesis
      unfolding onData_status_state[OF status]
      by (simp add: emit_scheduler split: option.splits)
  next
    case unknown
    then show ?thesis by (simp add: onData_def)
  qed
qed

lemma onData_timerOk:
  assumes "timerOk s"
  shows "timerOk (fst (onData opts e now data s))"
proof -
  consider "data = [0x64, 0x03]" | "data = [0x64, 0x01]"
    | "data \<noteq> [0x64, 0x03]" "data \<noteq> [0x64, 0x01]" by blast
  then show ?thesis
  proof cases
    case 1
    then show ?thesis using power_off_disarms(3)[OF assms] by simp
  next
    case 2
    then show ?thesis
      using scheduler_timerOk[OF power_on_scheduler, of opts e now s] bootstrap_timerOk[OF assms]
      by simp
  next
    case 3
    then show ?thesis using scheduler_timerOk[OF onData_scheduler_other[OF 3]] assms by simp
  qed
qed

lemma step_timerOk: "timerOk s \<Longrightarrow> timerOk (fst (step opts e i s))"
proof (cases i)
  case Close
  assume "timerOk s"
  then have "timerOk (onClose s)" using timerOk_cong[of "onClose s" s] by (simp add: onClose_fields)
  then show ?thesis by (simp add: step_def Close)
qed (auto simp: step_def onData_timerOk bootstrap_timerOk)

lemma run_timerOk: "timerOk s \<Longrightarrow> timerOk (fst (run opts e ins s))"
proof (induction ins arbitrary: s)
  case Nil
  then show ?case by simp
next
  case (Cons i ins)
  from Cons.IH[OF step_timerOk[OF Cons.prems, of opts e i]] show ?case
    by (cases "step opts e i s"; cases "run opts e ins (fst (step opts e i s))") simp
qed

lemma create_timerOk:
  assumes "create opts e everything = Inr (s0, ev0)"
  shows "timerOk s0" and "armed s0"
proof -
  let ?ds = "selectDevices everything"
  obtain s1 ev1 where b: "bootstrap opts e (initial ?ds) = (s1, ev1)"
    by (cases "bootstrap opts e (initial ?ds)")
  obtain s2 ev2 where o: "openAll e ?ds s1 = (s2, ev2)" by (cases "openAll e ?ds s1")
  from assms b o have eq: "s0 = s2"
    by (auto simp: create_def Let_def split: if_splits)
  have "timerOk (initial ?ds)" by (simp add: timerOk_def initial_def)
  from bootstrap_timerOk[OF this, of opts e] b have "timerOk s1 \<and> armed s1" by simp
  with openAll_frame[OF o] timerOk_cong[of s2 s1] show "timerOk s0" and "armed s0"
    by (simp_all add: eq)
qed

lemma session_timerOk:
  assumes "create opts e everything = Inr (s0, ev0)" and "run opts e ins s0 = (s, ev)"
  shows "timerOk s"
  using run_timerOk[OF create_timerOk(1)[OF assms(1)], of opts e ins] assms(2) by simp

section \<open>Two-byte reports and the scheduler\<close>

lemma power_off_events:
  "snd (onData opts e now [0x64, 0x03] s) =
     (if dedupe opts \<and> lastPower s = Some Off then [] else [EvPower Off])"
  unfolding onData_power_off
  by (simp add: emitPower_def clearInterval_def split: timer_ref.splits)

lemma power_on_events:
  "snd (onData opts e now [0x64, 0x01] s) =
     snd (bootstrap opts e s) @
     (if dedupe opts \<and> lastPower s = Some On then [] else [EvPower On])"
  unfolding onData_power_on
  by (simp add: emitPower_def bootstrap_last)

lemma muted_events:
  assumes "length data = 2" "\<not> (data ! 0 = 0x64 \<and> (data ! 1 = 0x03 \<or> data ! 1 = 0x01))"
  shows "snd (onData opts e now data s) =
     (if dedupe opts \<and> lastMuted s = Some (data ! 0 = 0x65 \<and> data ! 1 = 0x04) then []
      else [EvMuted (data ! 0 = 0x65 \<and> data ! 1 = 0x04)])"
  unfolding onData_muted[OF assms] by (auto simp add: emitMuted_def)

text \<open>
  C2: in every session a two-byte report \<open>(0x64,0x03)\<close> decodes to \<open>Power(off)\<close> and to
  nothing else, and leaves the scheduler disarmed: no timer is live and \<open>interval\<close> is
  \<open>null\<close>. A report \<open>(0x64,0x01)\<close> decodes to \<open>Power(on)\<close> and to nothing else (the only
  other events are the errors of the wake-up it triggers) and leaves the scheduler armed.
  Every other two-byte report decodes to \<open>Muted(b0 = 0x65 \<and> b1 = 0x04)\<close> and leaves the
  scheduler as it was. The decoded signal is the one event emitted, unless de-duplication
  suppresses it as a repetition of the stored value.
\<close>

theorem two_byte_reports:
  assumes "create opts e everything = Inr (s0, ev0)" and "run opts e ins s0 = (s, ev)"
  shows
    "snd (onData opts e now [0x64, 0x03] s) =
       (if dedupe opts \<and> lastPower s = Some Off then [] else [EvPower Off])
     \<and> \<not> armed (fst (onData opts e now [0x64, 0x03] s))
     \<and> timers (fst (onData opts e now [0x64, 0x03] s)) = []
     \<and> interval (fst (onData opts e now [0x64, 0x03] s)) = Null
     \<and> nonErrors (snd (onData opts e now [0x64, 0x01] s)) =
         (if dedupe opts \<and> lastPower s = Some On then [] else [EvPower On])
     \<and> snd (onData opts e now [0x64, 0x01] s) =
         snd (bootstrap opts e s) @ nonErrors (snd (onData opts e now [0x64, 0x01] s))
     \<and> armed (fst (onData opts e now [0x64, 0x01] s))
     \<and> (length data = 2 \<and> \<not> (data ! 0 = 0x64 \<and> (data ! 1 = 0x03 \<or> data ! 1 = 0x01)) \<longrightarrow>
          snd (onData opts e now data s) =
            (if dedupe opts \<and> lastMuted s = Some (data ! 0 = 0x65 \<and> data ! 1 = 0x04) then []
             else [EvMuted (data ! 0 = 0x65 \<and> data ! 1 = 0x04)])
          \<and> scheduler (fst (onData opts e now data s)) = scheduler s)"
proof -
  have ok: "timerOk s" by (rule session_timerOk[OF assms])
  note off = power_off_disarms[OF ok, of opts e now]
  have ne: "nonErrors (snd (bootstrap opts e s)) = []"
    using errors_no_signal[OF bootstrap_errors] by blast
  have 5: "nonErrors (snd (onData opts e now [0x64, 0x01] s)) =
         (if dedupe opts \<and> lastPower s = Some On then [] else [EvPower On])"
    using ne by (simp add: power_on_events nonErrors_def)
  have 6: "snd (onData opts e now [0x64, 0x01] s) =
         snd (bootstrap opts e s) @ nonErrors (snd (onData opts e now [0x64, 0x01] s))"
    unfolding 5 by (rule power_on_events)
  have 7: "armed (fst (onData opts e now [0x64, 0x01] s))"
    using scheduler_timerOk[OF power_on_scheduler, of opts e now s] bootstrap_timerOk[OF ok]
    by simp
  have 8: "snd (onData opts e now data s) =
            (if dedupe opts \<and> lastMuted s = Some (data ! 0 = 0x65 \<and> data ! 1 = 0x04) then []
             else [EvMuted (data ! 0 = 0x65 \<and> data ! 1 = 0x04)])
          \<and> scheduler (fst (onData opts e now data s)) = scheduler s"
    if "length data = 2" "\<not> (data ! 0 = 0x64 \<and> (data ! 1 = 0x03 \<or> data ! 1 = 0x01))"
  proof -
    have "scheduler (fst (onData opts e now data s)) = scheduler s"
      unfolding onData_muted[OF that] by (rule emit_scheduler)
    with muted_events[OF that, of opts e now s] show ?thesis by simp
  qed
  from power_off_events off(1,2,4) 5 6 7 8 show ?thesis by blast
qed

theorem two_byte_reports_witness:
  "create defaults quietHost [statusInterface] = Inr (statusSession, [])
   \<and> run defaults quietHost [] statusSession = (statusSession, [])
   \<and> snd (onData defaults quietHost 0 [0x64, 0x03] statusSession) = [EvPower Off]
   \<and> timers (fst (onData defaults quietHost 0 [0x64, 0x03] statusSession)) = []
   \<and> nonErrors (snd (onData defaults quietHost 0 [0x64, 0x01] statusSession)) = [EvPower On]
   \<and> armed (fst (onData defaults quietHost 0 [0x64, 0x01] statusSession))
   \<and> snd (onData defaults quietHost 0 [0x65, 0x04] statusSession) = [EvMuted True]
   \<and> snd (onData defaults quietHost 0 [0x65, 0x05] statusSession) = [EvMuted False]"
proof -
  have c: "create defaults quietHost [statusInterface] = Inr (statusSession, [])"
    by (rule create_statusSession)
  have r: "run defaults quietHost [] statusSession = (statusSession, [])" by simp
  have l: "lastPower statusSession = None" "lastMuted statusSession = None"
    by (simp_all add: statusSession_def)
  show ?thesis
    using c r two_byte_reports [OF c r, of 0 "[0x65, 0x04]"]
      two_byte_reports [OF c r, of 0 "[0x65, 0x05]"]
    by (simp add: l)
qed

section \<open>Choosing the status interface\<close>

lemma find_None_iff': "find P xs = None \<longleftrightarrow> (\<forall>x\<in>set xs. \<not> P x)"
  by (induction xs) auto

lemma find_Some_set: "find P xs = Some x \<Longrightarrow> x \<in> set xs \<and> P x"
  by (induction xs) (auto split: if_splits)

lemma bootstrapDeviceInfo_None:
  "bootstrapDeviceInfo ds = None \<longleftrightarrow> (\<forall>d\<in>set ds. usage d \<noteq> Some 771)"
proof (cases "find isStatus ds")
  case None
  show ?thesis
    unfolding bootstrapDeviceInfo_def None
    by (simp add: find_None_iff' hasStatusUsage_def STATUS_USAGE_def)
next
  case (Some x)
  from find_Some_set[OF this] have "x \<in> set ds" "usage x = Some 771"
    by (simp_all add: isStatus_def STATUS_USAGE_def)
  with Some show ?thesis by (auto simp: bootstrapDeviceInfo_def)
qed

lemma bootstrapDeviceInfo_Some:
  assumes "bootstrapDeviceInfo ds = Some d"
  shows "d \<in> set ds" and "usage d = Some 771"
    and "\<exists>d'\<in>set ds. usage d' = Some 771 \<and> usagePage d' \<in> {Some 65363, Some 65424}
           \<Longrightarrow> usagePage d \<in> {Some 65363, Some 65424}"
proof -
  show "d \<in> set ds" and "usage d = Some 771"
    using assms
    by (auto simp: bootstrapDeviceInfo_def hasStatusUsage_def isStatus_def STATUS_USAGE_def
        split: option.splits dest: find_Some_set)
  assume "\<exists>d'\<in>set ds. usage d' = Some 771 \<and> usagePage d' \<in> {Some 65363, Some 65424}"
  then have "\<exists>d'\<in>set ds. isStatus d'"
    by (auto simp: isStatus_def STATUS_USAGE_def STATUS_USAGEPAGES_def)
  then obtain x where "find isStatus ds = Some x"
    by (cases "find isStatus ds") (auto simp: find_None_iff')
  with assms have "isStatus d"
    by (auto simp: bootstrapDeviceInfo_def dest: find_Some_set)
  then show "usagePage d \<in> {Some 65363, Some 65424}"
    by (auto simp: isStatus_def STATUS_USAGEPAGES_def split: option.splits)
qed

lemma bootstrap_not_found:
  assumes "bootstrapDevice s = None" "bootstrapDeviceInfo (devices s) = None"
  shows "snd (bootstrap opts e s) = [EvError StatusInterfaceNotFound]"
    and "handles (fst (bootstrap opts e s)) = handles s"
    and "openLog (fst (bootstrap opts e s)) = openLog s"
    and "writeLog (fst (bootstrap opts e s)) = writeLog s"
    and "bootstrapDevice (fst (bootstrap opts e s)) = None"
  using assms
  by (simp_all add: bootstrap_def Let_def setInterval_def split: timer_ref.splits)

text \<open>
  C7, as stated, fails: on a host whose only selected interface lacks usage 771 the session
  is created with the error event emitted and the repeating timer live, so the scheduler is
  armed although no status interface exists.
\<close>

theorem status_interface_missing_counterexample:
  "bootstrapDeviceInfo [controlInterface] = None
   \<and> create defaults quietHost [controlInterface]
       = Inr (controlSession, [EvError StatusInterfaceNotFound])
   \<and> timers controlSession = [(0, 300000)] \<and> interval controlSession = Timer 0
   \<and> armed controlSession"
  using create_controlSession
  by (simp add: bootstrapDeviceInfo_def isStatus_def hasStatusUsage_def controlInterface_def
      STATUS_USAGE_def controlSession_def armed_def)

text \<open>
  C7, amended: the interface chosen for the keep-alive writes is one of the selected
  interfaces with usage 771, and one with usage page 65363 or 65424 whenever such an
  interface is among them; none is chosen exactly when no selected interface has usage 771.
  In that case \<open>bootstrap\<close> emits the one descriptive error, opens no handle and writes
  nothing, but the repeating timer is armed all the same (it is started before the lookup),
  and the next invocation of \<open>bootstrap\<close> repeats the lookup and the error.
\<close>

theorem status_interface_selection:
  "(bootstrapDeviceInfo ds = None \<longleftrightarrow> (\<forall>d\<in>set ds. usage d \<noteq> Some 771))
   \<and> (bootstrapDeviceInfo ds = Some d \<longrightarrow>
        d \<in> set ds \<and> usage d = Some 771
        \<and> ((\<exists>d'\<in>set ds. usage d' = Some 771 \<and> usagePage d' \<in> {Some 65363, Some 65424})
             \<longrightarrow> usagePage d \<in> {Some 65363, Some 65424}))
   \<and> (bootstrapDevice s = None \<and> (\<forall>d\<in>set (devices s). usage d \<noteq> Some 771) \<longrightarrow>
        snd (bootstrap opts e s) = [EvError StatusInterfaceNotFound]
        \<and> handles (fst (bootstrap opts e s)) = handles s
        \<and> openLog (fst (bootstrap opts e s)) = openLog s
        \<and> writeLog (fst (bootstrap opts e s)) = writeLog s
        \<and> bootstrapDevice (fst (bootstrap opts e s)) = None
        \<and> (\<exists>t. interval (fst (bootstrap opts e s)) = Timer t)
        \<and> (timerOk s \<longrightarrow> armed (fst (bootstrap opts e s)))
        \<and> snd (bootstrap opts e (fst (bootstrap opts e s))) = [EvError StatusInterfaceNotFound])"
proof -
  have 3: "snd (bootstrap opts e s) = [EvError StatusInterfaceNotFound]
        \<and> handles (fst (bootstrap opts e s)) = handles s
        \<and> openLog (fst (bootstrap opts e s)) = openLog s
        \<and> writeLog (fst (bootstrap opts e s)) = writeLog s
        \<and> bootstrapDevice (fst (bootstrap opts e s)) = None
        \<and> (\<exists>t. interval (fst (bootstrap opts e s)) = Timer t)
        \<and> (timerOk s \<longrightarrow> armed (fst (bootstrap opts e s)))
        \<and> snd (bootstrap opts e (fst (bootstrap opts e s))) = [EvError StatusInterfaceNotFound]"
    if a: "bootstrapDevice s = None" and b: "\<forall>d\<in>set (devices s). usage d \<noteq> Some 771"
  proof -
    from b have n: "bootstrapDeviceInfo (devices s) = None"
      by (simp add: bootstrapDeviceInfo_None)
    note first = bootstrap_not_found[OF a n, of opts e]
    have n': "bootstrapDeviceInfo (devices (fst (bootstrap opts e s))) = None"
      using n by (simp add: bootstrap_last)
    note second = bootstrap_not_found(1)[OF first(5) n', of opts e]
    from first second bootstrap_timer[of opts e s] bootstrap_timerOk[of s opts e]
    show ?thesis by blast
  qed
  from bootstrapDeviceInfo_None[of ds] bootstrapDeviceInfo_Some[of ds d] 3
  show ?thesis by blast
qed

theorem status_interface_selection_witness:
  "bootstrapDeviceInfo [controlInterface, statusInterface\<lparr> usagePage := None \<rparr>, statusInterface]
     = Some statusInterface
   \<and> usagePage statusInterface \<in> {Some 65363, Some 65424}
   \<and> bootstrapDevice (initial [controlInterface]) = None
   \<and> map usage (devices (initial [controlInterface])) = [Some 1]
   \<and> timerOk (initial [controlInterface])
   \<and> snd (bootstrap defaults quietHost (initial [controlInterface]))
       = [EvError StatusInterfaceNotFound]
   \<and> armed (fst (bootstrap defaults quietHost (initial [controlInterface])))"
proof -
  let ?ds = "[controlInterface, statusInterface\<lparr> usagePage := None \<rparr>, statusInterface]"
  have a: "bootstrapDeviceInfo ?ds = Some statusInterface"
    by (simp add: bootstrapDeviceInfo_def isStatus_def hasStatusUsage_def controlInterface_def
        statusInterface_def STATUS_USAGE_def STATUS_USAGEPAGES_def)
  have b: "\<exists>d'\<in>set ?ds. usage d' = Some 771 \<and> usagePage d' \<in> {Some 65363, Some 65424}"
    by (simp add: statusInterface_def)
  have c: "bootstrapDevice (initial [controlInterface]) = None"
    "\<forall>d\<in>set (devices (initial [controlInterface])). usage d \<noteq> Some 771"
    "timerOk (initial [controlInterface])"
    "map usage (devices (initial [controlInterface])) = [Some 1]"
    by (simp_all add: initial_def controlInterface_def timerOk_def)
  show ?thesis
    using a b c
      status_interface_selection [of ?ds statusInterface "initial [controlInterface]" defaults quietHost]
    by (simp add: statusInterface_def controlInterface_def)
qed

section \<open>Handles over a session\<close>

lemma handlesOk_cong:
  "handles s' = handles s \<Longrightarrow> closeListeners s' = closeListeners s
     \<Longrightarrow> bootstrapDevice s' = bootstrapDevice s \<Longrightarrow> devices s' = devices s
     \<Longrightarrow> handlesOk s' = handlesOk s \<and> untouched s' = untouched s"
  by (simp add: handlesOk_def untouched_def)

lemma bootstrap_handles:
  "(handles (fst (bootstrap opts e s)) = handles s
      \<and> bootstrapDevice (fst (bootstrap opts e s)) = bootstrapDevice s)
   \<or> (\<exists>d. bootstrapDevice s = None \<and> bootstrapDeviceInfo (devices s) = Some d
        \<and> handles (fst (bootstrap opts e s))
            = handles s @ [\<lparr> hpath = path d, hopen = True, hcloses = 0 \<rparr>]
        \<and> bootstrapDevice (fst (bootstrap opts e s)) = Some (length (handles s)))"
  by (auto simp: bootstrap_def Let_def wakeup_def hidOpen_def setInterval_def
      split: timer_ref.splits option.splits prod.splits if_splits)

lemma map_nth_append_old:
  "\<forall>h\<in>set hs. h < length xs \<Longrightarrow> map (\<lambda>h. f ((xs @ ys) ! h)) hs = map (\<lambda>h. f (xs ! h)) hs"
  by (induction hs) (auto simp: nth_append)

lemma bootstrap_handlesOk:
  assumes "handlesOk s"
  shows "handlesOk (fst (bootstrap opts e s))"
proof -
  let ?s' = "fst (bootstrap opts e s)"
  have fr: "closeListeners ?s' = closeListeners s" "devices ?s' = devices s"
    by (simp_all add: bootstrap_last)
  from bootstrap_handles[of opts e s] show ?thesis
  proof (elim disjE exE conjE)
    assume "handles ?s' = handles s" "bootstrapDevice ?s' = bootstrapDevice s"
    with handlesOk_cong[of ?s' s] fr assms show ?thesis by simp
  next
    fix d :: descriptor
    let ?x = "\<lparr> hpath = path d, hopen = True, hcloses = 0 \<rparr>"
    assume n: "bootstrapDevice s = None" and d: "bootstrapDeviceInfo (devices s) = Some d"
      and h: "handles ?s' = handles s @ [?x]"
      and b: "bootstrapDevice ?s' = Some (length (handles s))"
    from assms have cl: "\<forall>h\<in>set (closeListeners s). h < length (handles s)"
      and di: "distinct (closeListeners s)"
      and all: "\<forall>h<length (handles s). h \<in> set (closeListeners s)"
      and ss: "subseq (map (\<lambda>h. hpath (handles s ! h)) (closeListeners s)) (map path (devices s))"
      by (auto simp: handlesOk_def n)
    have m: "map (\<lambda>h. hpath ((handles s @ [?x]) ! h)) (closeListeners s)
           = map (\<lambda>h. hpath (handles s ! h)) (closeListeners s)"
      by (rule map_nth_append_old[OF cl])
    show ?thesis
      unfolding handlesOk_def fr h b m
      using cl di all ss d by (auto simp: less_Suc_eq)
  qed
qed

lemma bootstrap_untouched: "untouched s \<Longrightarrow> untouched (fst (bootstrap opts e s))"
  using bootstrap_handles[of opts e s] by (auto simp: untouched_def)

lemma onData_wiring:
  "closeListeners (fst (onData opts e now data s)) = closeListeners s
   \<and> devices (fst (onData opts e now data s)) = devices s"
proof -
  consider (off) "data = [0x64, 0x03]" | (on) "data = [0x64, 0x01]"
    | (muted) "length data = 2" "\<not> (data ! 0 = 0x64 \<and> (data ! 1 = 0x03 \<or> data ! 1 = 0x01))"
    | (volume) "length data = 5" | (status) "length data = 15 \<or> length data = 20"
    | (unknown) "length data \<noteq> 2" "length data \<noteq> 5" "length data \<noteq> 15" "length data \<noteq> 20"
  proof -
    have "data = [data ! 0, data ! 1]" if "length data = 2"
      using that by (cases data; cases "tl data") auto
    then show ?thesis using that by (cases "length data = 2") metis+
  qed
  then show ?thesis
  proof cases
    case off
    then show ?thesis unfolding off onData_power_off
      by (simp add: emitPower_def clearInterval_def split: timer_ref.splits)
  next
    case on
    then show ?thesis unfolding on onData_power_on
      by (simp add: emitPower_def bootstrap_last split: prod.splits)
  next
    case muted
    show ?thesis unfolding onData_muted[OF muted] by (simp add: emitMuted_def)
  next
    case volume
    then show ?thesis by (simp add: onData_def)
  next
    case status
    show ?thesis
      unfolding onData_status_state[OF status] calculatePercentage_effect
      by (simp add: emitBattery_def emitCharging_def Let_def split: option.splits)
  next
    case unknown
    then show ?thesis by (simp add: onData_def)
  qed
qed

lemma onData_handlesOk:
  assumes "handlesOk s"
  shows "handlesOk (fst (onData opts e now data s))"
    and "untouched s \<Longrightarrow> untouched (fst (onData opts e now data s))"
proof -
  let ?s' = "fst (onData opts e now data s)"
  have "handlesOk ?s' \<and> (untouched s \<longrightarrow> untouched ?s')"
  proof (cases "data = [0x64, 0x01]")
    case True
    have "scheduler ?s' = scheduler (fst (bootstrap opts e s))"
      unfolding True by (rule power_on_scheduler)
    then have "handles ?s' = handles (fst (bootstrap opts e s))"
      "bootstrapDevice ?s' = bootstrapDevice (fst (bootstrap opts e s))"
      by (simp_all add: scheduler_def)
    with handlesOk_cong[of ?s' "fst (bootstrap opts e s)"] onData_wiring[of opts e now data s]
      bootstrap_handlesOk[OF assms, of opts e] bootstrap_untouched[of s opts e]
    show ?thesis by (simp add: bootstrap_last)
  next
    case False
    have "scheduler ?s' = scheduler ((clearInterval (interval s) s)\<lparr> interval := Null \<rparr>)
          \<or> scheduler ?s' = scheduler s"
      using power_off_scheduler[of opts e now s] onData_scheduler_other[OF _ False, of opts e now s]
      by (cases "data = [0x64, 0x03]") auto
    then have "handles ?s' = handles s" "bootstrapDevice ?s' = bootstrapDevice s"
      by (auto simp: scheduler_def clearInterval_def split: timer_ref.splits)
    with handlesOk_cong[of ?s' s] onData_wiring[of opts e now data s] assms
    show ?thesis by simp
  qed
  then show "handlesOk ?s'" and "untouched s \<Longrightarrow> untouched ?s'" by simp_all
qed

lemma hidClose_nth:
  "length (handles (hidClose c s)) = length (handles s)"
  "h < length (handles s) \<Longrightarrow>
     handles (hidClose c s) ! h =
       (if h = c then (handles s ! h)\<lparr> hopen := False, hcloses := Suc (hcloses (handles s ! h)) \<rparr>
        else handles s ! h)"
  by (auto simp: hidClose_def)

lemma fold_hidClose_length:
  "length (handles (fold hidClose cs s)) = length (handles s)"
  by (induction cs arbitrary: s) (simp_all add: hidClose_nth)

lemma fold_hidClose_nth:
  "h < length (handles s) \<Longrightarrow>
     hpath (handles (fold hidClose cs s) ! h) = hpath (handles s ! h)
     \<and> hcloses (handles (fold hidClose cs s) ! h) = hcloses (handles s ! h) + count_list cs h
     \<and> hopen (handles (fold hidClose cs s) ! h) = (hopen (handles s ! h) \<and> h \<notin> set cs)"
proof (induction cs arbitrary: s)
  case Nil
  then show ?case by simp
next
  case (Cons c cs)
  have "h < length (handles (hidClose c s))" using Cons.prems by (simp add: hidClose_nth)
  from Cons.IH[OF this] Cons.prems show ?case
    by (auto simp: hidClose_nth)
qed

lemma fold_hidClose_other:
  "h < length (handles s) \<Longrightarrow> h \<notin> set cs \<Longrightarrow> handles (fold hidClose cs s) ! h = handles s ! h"
proof (induction cs arbitrary: s)
  case Nil
  then show ?case by simp
next
  case (Cons c cs)
  have "h < length (handles (hidClose c s))" using Cons.prems by (simp add: hidClose_nth)
  from Cons.IH[OF this] Cons.prems show ?case
    by (auto simp: hidClose_nth)
qed

lemma distinct_count_one: "distinct cs \<Longrightarrow> h \<in> set cs \<Longrightarrow> count_list cs h = 1"
  by (induction cs) auto

lemma onClose_handles:
  "length (handles (onClose s)) = length (handles s)"
  "h < length (handles s) \<Longrightarrow> hpath (handles (onClose s) ! h) = hpath (handles s ! h)"
  "h < length (handles s) \<Longrightarrow> h \<notin> set (closeListeners s) \<Longrightarrow>
     handles (onClose s) ! h = handles s ! h"
  "h < length (handles s) \<Longrightarrow> h \<in> set (closeListeners s) \<Longrightarrow> distinct (closeListeners s) \<Longrightarrow>
     \<not> hopen (handles (onClose s) ! h)
     \<and> hcloses (handles (onClose s) ! h) = Suc (hcloses (handles s ! h))"
  unfolding onClose_def
  using fold_hidClose_nth[of h s "closeListeners s"]
  by (simp_all add: fold_hidClose_length fold_hidClose_other distinct_count_one)

lemma onClose_handlesOk:
  assumes "handlesOk s"
  shows "handlesOk (onClose s)"
proof -
  have eq: "map (\<lambda>h. hpath (handles (onClose s) ! h)) (closeListeners s)
      = map (\<lambda>h. hpath (handles s ! h)) (closeListeners s)"
    using assms by (auto simp: handlesOk_def onClose_handles)
  from assms show ?thesis
    unfolding handlesOk_def onClose_fields eq by (simp add: onClose_handles)
qed

lemma step_handlesOk:
  assumes "handlesOk s"
  shows "handlesOk (fst (step opts e i s))"
    and "untouched s \<Longrightarrow> i \<noteq> Close \<Longrightarrow> untouched (fst (step opts e i s))"
proof -
  show "handlesOk (fst (step opts e i s))"
    using assms
    by (cases i) (simp_all add: step_def onData_handlesOk bootstrap_handlesOk onClose_handlesOk)
  show "untouched s \<Longrightarrow> i \<noteq> Close \<Longrightarrow> untouched (fst (step opts e i s))"
    using assms
    by (cases i) (simp_all add: step_def onData_handlesOk bootstrap_untouched)
qed

lemma run_handlesOk:
  assumes "handlesOk s"
  shows "handlesOk (fst (run opts e ins s))
     \<and> (untouched s \<and> Close \<notin> set ins \<longrightarrow> untouched (fst (run opts e ins s)))"
  using assms
proof (induction ins arbitrary: s)
  case Nil
  then show ?case by simp
next
  case (Cons i ins)
  note st1 = step_handlesOk(1)[OF Cons.prems, of opts e i]
  note st2 = step_handlesOk(2)[OF Cons.prems, where opts = opts and e = e and i = i]
  from Cons.IH[OF st1] st2 show ?case
    by (cases "step opts e i s"; cases "run opts e ins (fst (step opts e i s))") auto
qed

lemma step_wiring:
  "closeListeners (fst (step opts e i s)) = closeListeners s
   \<and> devices (fst (step opts e i s)) = devices s"
  by (cases i) (simp_all add: step_def onData_wiring bootstrap_last onClose_fields)

lemma run_wiring:
  "closeListeners (fst (run opts e ins s)) = closeListeners s
   \<and> devices (fst (run opts e ins s)) = devices s"
proof (induction ins arbitrary: s)
  case Nil
  then show ?case by simp
next
  case (Cons i ins)
  from Cons.IH[of "fst (step opts e i s)"] step_wiring[of opts e i s] show ?case
    by (cases "step opts e i s"; cases "run opts e ins (fst (step opts e i s))") auto
qed

lemma openAll_handles:
  "openAll e ds s = (s', ev) \<Longrightarrow>
     \<exists>hs. handles s' = handles s @ hs
        \<and> closeListeners s' =
            closeListeners s @ [length (handles s)..<length (handles s) + length hs]
        \<and> subseq (map hpath hs) (map path ds)
        \<and> list_all (\<lambda>h. hopen h \<and> hcloses h = 0) hs"
proof (induction ds arbitrary: s s' ev)
  case Nil
  then show ?case by simp
next
  case (Cons d ds)
  show ?case
  proof (cases "openThrows e (length (openLog s)) (path d)")
    case True
    let ?s1 = "s\<lparr> openLog := openLog s @ [path d] \<rparr>"
    obtain s2 ev2 where r: "openAll e ds ?s1 = (s2, ev2)" by (cases "openAll e ds ?s1")
    from Cons.prems True r have eq: "s' = s2"
      by (simp_all add: hidOpen_def)
    from Cons.IH[OF r] show ?thesis by (auto simp: eq)
  next
    case False
    let ?x = "\<lparr> hpath = path d, hopen = True, hcloses = 0 \<rparr>"
    let ?s1 = "s\<lparr> openLog := openLog s @ [path d],
               handles := handles s @ [?x],
               closeListeners := closeListeners s @ [length (handles s)] \<rparr>"
    from Cons.prems False have r: "openAll e ds ?s1 = (s', ev)"
      by (simp add: hidOpen_def)
    from Cons.IH[OF r] obtain hs where hs: "handles s' = handles s @ ?x # hs"
      "closeListeners s' = closeListeners s @ length (handles s) #
           [Suc (length (handles s))..<Suc (length (handles s)) + length hs]"
      "subseq (map hpath hs) (map path ds)" "list_all (\<lambda>h. hopen h \<and> hcloses h = 0) hs"
      by auto
    have "closeListeners s' =
            closeListeners s @ [length (handles s)..<length (handles s) + length (?x # hs)]"
      unfolding hs(2) by (simp add: upt_conv_Cons del: upt_Suc)
    moreover have "subseq (map hpath (?x # hs)) (map path (d # ds))"
      using hs(3) by simp
    moreover have "list_all (\<lambda>h. hopen h \<and> hcloses h = 0) (?x # hs)"
      using hs(4) by simp
    ultimately show ?thesis using hs(1) by blast
  qed
qed

lemma map_nth_new:
  "map (\<lambda>h. f ((xs @ ys) ! h)) [length xs..<length xs + length ys] = map f ys"
  by (rule nth_equalityI) (simp_all add: nth_append)

lemma create_handlesOk:
  assumes "create opts e everything = Inr (s0, ev0)"
  shows "handlesOk s0" and "untouched s0" and "devices s0 = selectDevices everything"
proof -
  let ?ds = "selectDevices everything"
  obtain s1 ev1 where b: "bootstrap opts e (initial ?ds) = (s1, ev1)"
    by (cases "bootstrap opts e (initial ?ds)")
  obtain s2 ev2 where o: "openAll e ?ds s1 = (s2, ev2)" by (cases "openAll e ?ds s1")
  from assms b o have eq: "s0 = s2"
    by (auto simp: create_def Let_def split: if_splits)
  have i: "handlesOk (initial ?ds)" "untouched (initial ?ds)"
    by (simp_all add: handlesOk_def untouched_def initial_def)
  have s1: "handlesOk s1" "untouched s1" "closeListeners s1 = []" "devices s1 = ?ds"
    using bootstrap_handlesOk[OF i(1), of opts e] bootstrap_untouched[OF i(2), of opts e]
      bootstrap_last(6,7)[of opts e "initial ?ds"]
    unfolding b by (simp_all add: initial_def)
  from openAll_handles[OF o] obtain hs where hs: "handles s2 = handles s1 @ hs"
    "closeListeners s2 = [length (handles s1)..<length (handles s1) + length hs]"
    "subseq (map hpath hs) (map path ?ds)" "list_all (\<lambda>h. hopen h \<and> hcloses h = 0) hs"
    unfolding s1(3) by (elim exE conjE) simp
  from openAll_frame[OF o] have fr: "bootstrapDevice s2 = bootstrapDevice s1" "devices s2 = ?ds"
    by (simp_all add: s1(4))
  from s1(1) have A: "\<forall>h<length (handles s1). h \<in> set (closeListeners s1) \<or> bootstrapDevice s1 = Some h"
    and B: "\<forall>b. bootstrapDevice s1 = Some b \<longrightarrow> b < length (handles s1)
            \<and> Some (hpath (handles s1 ! b)) = map_option path (bootstrapDeviceInfo (devices s1))"
    unfolding handlesOk_def by blast+
  have bd1: "\<forall>h<length (handles s1). bootstrapDevice s1 = Some h"
    using A unfolding s1(3) by simp
  have bd2: "\<forall>b. bootstrapDevice s1 = Some b \<longrightarrow> b < length (handles s1)
            \<and> Some (hpath (handles s1 ! b)) = map_option path (bootstrapDeviceInfo ?ds)"
    using B unfolding s1(4) .
  let ?n = "length (handles s1)"
  have c1: "distinct (closeListeners s2)" by (simp add: hs(2))
  have c2: "\<forall>h\<in>set (closeListeners s2). h < length (handles s2) \<and> bootstrapDevice s2 \<noteq> Some h"
  proof
    fix h assume "h \<in> set (closeListeners s2)"
    then have "?n \<le> h" "h < ?n + length hs" by (simp_all add: hs(2))
    moreover from this bd2 have "bootstrapDevice s1 \<noteq> Some h"
      by (metis not_less)
    ultimately show "h < length (handles s2) \<and> bootstrapDevice s2 \<noteq> Some h"
      by (simp add: hs(1) fr)
  qed
  have c3: "\<forall>h<length (handles s2). h \<in> set (closeListeners s2) \<or> bootstrapDevice s2 = Some h"
  proof (intro allI impI)
    fix h assume "h < length (handles s2)"
    then have "h < ?n + length hs" by (simp add: hs(1))
    then show "h \<in> set (closeListeners s2) \<or> bootstrapDevice s2 = Some h"
      using bd1 by (cases "h < ?n") (simp_all add: hs(2) fr)
  qed
  have c4: "\<forall>b. bootstrapDevice s2 = Some b \<longrightarrow> b < length (handles s2)
            \<and> Some (hpath (handles s2 ! b)) = map_option path (bootstrapDeviceInfo (devices s2))"
    using bd2 by (auto simp: fr hs(1) nth_append)
  have c5: "subseq (map (\<lambda>h. hpath (handles s2 ! h)) (closeListeners s2)) (map path (devices s2))"
    unfolding hs(1,2) fr map_nth_new by (rule hs(3))
  have "handlesOk s2"
    unfolding handlesOk_def using c1 c2 c3 c4 c5 by blast
  moreover have "untouched s2"
    using s1(2) hs(4) by (simp add: untouched_def hs(1))
  ultimately show "handlesOk s0" and "untouched s0" and "devices s0 = selectDevices everything"
    by (simp_all add: eq fr)
qed

lemma session_handlesOk:
  assumes "create opts e everything = Inr (s0, ev0)" and "run opts e ins s0 = (s, ev)"
  shows "handlesOk s" and "Close \<notin> set ins \<Longrightarrow> untouched s"
    and "devices s = selectDevices everything"
  using run_handlesOk[OF create_handlesOk(1)[OF assms(1)], of opts e ins]
    create_handlesOk(2,3)[OF assms(1)] run_wiring[of opts e ins s0] assms(2)
  by simp_all

lemma subseq_distinct: "subseq xs ys \<Longrightarrow> distinct ys \<Longrightarrow> distinct xs"
proof (induction rule: list_emb.induct)
  case (list_emb_Nil ys)
  then show ?case by simp
next
  case (list_emb_Cons xs ys y)
  then show ?case by simp
next
  case (list_emb_Cons2 x y xs ys)
  then show ?case using list_emb_set[of "(=)" xs ys] by auto
qed

section \<open>Handles per path and the close signal\<close>

lemma create_flakySession:
  "create defaults flakyHost [statusInterface, controlInterface]
     = Inr (flakySession, [EvError (OpenFailed ''hid-status'')])"
  by (simp add: session_defs flakyHost_def flakySession_def)

text \<open>
  C8, as stated, fails: on a quiet host that exposes the status interface, \<open>create\<close>
  opens its path twice, once in \<open>bootstrap\<close> for the scheduler (handle 0) and once in the
  \<open>forEach\<close> as a headset interface (handle 1), and both handles are open.
\<close>

theorem one_handle_per_path_counterexample:
  "create defaults quietHost [statusInterface] = Inr (statusSession, [])
   \<and> map hpath (handles statusSession) = [''hid-status'', ''hid-status'']
   \<and> map hopen (handles statusSession) = [True, True]
   \<and> bootstrapDevice statusSession = Some 0 \<and> closeListeners statusSession = [1]"
  using create_statusSession by (simp add: statusSession_def)

text \<open>
  C8, amended: at every point of a session every handle is either a headset handle, opened
  once at construction for one selected interface (the headset handles follow the selected
  interfaces in order, at most one per entry), or the one status handle of the scheduler,
  opened on the path of the chosen status interface. So, when the selected interfaces have
  distinct paths, two different handles are on the same path only if one is the scheduler's
  status handle and the other the headset handle of the status interface: every other path
  has at most one handle, the status path at most two.
\<close>

theorem handles_per_path:
  assumes "create opts e everything = Inr (s0, ev0)" and "run opts e ins s0 = (s, ev)"
  shows
    "distinct (closeListeners s)
     \<and> subseq (map (\<lambda>h. hpath (handles s ! h)) (closeListeners s))
          (map path (selectDevices everything))
     \<and> (h < length (handles s) \<longrightarrow> h \<in> set (closeListeners s) \<or> bootstrapDevice s = Some h)
     \<and> (bootstrapDevice s = Some b \<longrightarrow>
          b < length (handles s) \<and> b \<notin> set (closeListeners s)
          \<and> Some (hpath (handles s ! b))
              = map_option path (bootstrapDeviceInfo (selectDevices everything)))
     \<and> (distinct (map path (selectDevices everything))
          \<and> h1 < length (handles s) \<and> h2 < length (handles s) \<and> h1 \<noteq> h2
          \<and> hpath (handles s ! h1) = hpath (handles s ! h2) \<longrightarrow>
          (bootstrapDevice s = Some h1 \<and> h2 \<in> set (closeListeners s))
          \<or> (bootstrapDevice s = Some h2 \<and> h1 \<in> set (closeListeners s)))"
proof -
  note ok = session_handlesOk(1)[OF assms] and dv = session_handlesOk(3)[OF assms]
  from ok have 1: "distinct (closeListeners s)"
    and 2: "subseq (map (\<lambda>h. hpath (handles s ! h)) (closeListeners s))
          (map path (selectDevices everything))"
    and 3: "\<forall>h<length (handles s). h \<in> set (closeListeners s) \<or> bootstrapDevice s = Some h"
    and 4: "\<forall>b. bootstrapDevice s = Some b \<longrightarrow> b < length (handles s)
          \<and> Some (hpath (handles s ! b))
              = map_option path (bootstrapDeviceInfo (selectDevices everything))"
    and 5: "\<forall>h\<in>set (closeListeners s). h < length (handles s) \<and> bootstrapDevice s \<noteq> Some h"
    unfolding handlesOk_def dv by blast+
  have 6: "(bootstrapDevice s = Some h1 \<and> h2 \<in> set (closeListeners s))
          \<or> (bootstrapDevice s = Some h2 \<and> h1 \<in> set (closeListeners s))"
    if d: "distinct (map path (selectDevices everything))"
      and l: "h1 < length (handles s)" "h2 < length (handles s)" and ne: "h1 \<noteq> h2"
      and p: "hpath (handles s ! h1) = hpath (handles s ! h2)"
  proof -
    have "distinct (map (\<lambda>h. hpath (handles s ! h)) (closeListeners s))"
      by (rule subseq_distinct[OF 2 d])
    then have inj: "inj_on (\<lambda>h. hpath (handles s ! h)) (set (closeListeners s))"
      by (simp add: distinct_map)
    have "\<not> (h1 \<in> set (closeListeners s) \<and> h2 \<in> set (closeListeners s))"
      using inj_onD[OF inj p] ne by blast
    with 3 l ne show ?thesis by (metis option.inject)
  qed
  from 1 2 3 4 5 6 show ?thesis by blast
qed

theorem handles_per_path_witness:
  "create defaults quietHost [statusInterface] = Inr (statusSession, [])
   \<and> run defaults quietHost [] statusSession = (statusSession, [])
   \<and> distinct (map path (selectDevices [statusInterface]))
   \<and> (0::nat) < length (handles statusSession) \<and> (1::nat) < length (handles statusSession)
   \<and> hpath (handles statusSession ! 0) = hpath (handles statusSession ! 1)
   \<and> bootstrapDevice statusSession = Some 0 \<and> 1 \<in> set (closeListeners statusSession)"
proof -
  have c: "create defaults quietHost [statusInterface] = Inr (statusSession, [])"
    by (rule create_statusSession)
  have r: "run defaults quietHost [] statusSession = (statusSession, [])" by simp
  have d: "distinct (map path (selectDevices [statusInterface]))"
    by (simp add: session_defs)
  have l: "(0::nat) < length (handles statusSession)" "(1::nat) < length (handles statusSession)"
    "hpath (handles statusSession ! 0) = hpath (handles statusSession ! 1)"
    "bootstrapDevice statusSession = Some 0"
    by (simp_all add: statusSession_def)
  show ?thesis
    using c r d l handles_per_path [OF c r, of 0 0 0 1]
    by simp
qed

text \<open>
  C9, as stated, fails: in the session above the \<open>close\<close> signal closes the headset handle
  and nothing else; the status handle of the scheduler stays open, never closed, and the
  repeating timer stays live.
\<close>

theorem close_signal_counterexample:
  "create defaults quietHost [statusInterface] = Inr (statusSession, [])
   \<and> map hopen (handles (fst (step defaults quietHost Close statusSession))) = [True, False]
   \<and> map hcloses (handles (fst (step defaults quietHost Close statusSession))) = [0, 1]
   \<and> bootstrapDevice (fst (step defaults quietHost Close statusSession)) = Some 0
   \<and> timers (fst (step defaults quietHost Close statusSession)) = [(0, 300000)]
   \<and> armed (fst (step defaults quietHost Close statusSession))"
  using create_statusSession
  by (simp add: step_def onClose_def hidClose_def statusSession_def armed_def)

text \<open>
  C9, amended: in every session the \<open>close\<close> signal calls \<open>close()\<close> once on each
  headset handle, that is on every handle the session opened except the scheduler's status
  handle, and leaves it closed: each such handle that was never closed before has been
  closed exactly once afterwards. An interface that failed to open has no handle and no
  listener, so the signal is safe then too. The signal emits nothing and does not disarm
  the scheduler: \<open>interval\<close> and the repeating timer are as they were.
\<close>

theorem close_signal:
  assumes "create opts e everything = Inr (s0, ev0)" and "run opts e ins s0 = (s, ev)"
  shows
    "snd (step opts e Close s) = []
     \<and> length (handles (fst (step opts e Close s))) = length (handles s)
     \<and> (h < length (handles s) \<and> bootstrapDevice s \<noteq> Some h \<longrightarrow> h \<in> set (closeListeners s))
     \<and> (h \<in> set (closeListeners s) \<longrightarrow>
          h < length (handles s)
          \<and> \<not> hopen (handles (fst (step opts e Close s)) ! h)
          \<and> hcloses (handles (fst (step opts e Close s)) ! h) = Suc (hcloses (handles s ! h)))
     \<and> (Close \<notin> set ins \<and> h \<in> set (closeListeners s) \<longrightarrow>
          hopen (handles s ! h) \<and> hcloses (handles (fst (step opts e Close s)) ! h) = 1)
     \<and> interval (fst (step opts e Close s)) = interval s
     \<and> timers (fst (step opts e Close s)) = timers s
     \<and> armed (fst (step opts e Close s)) = armed s"
proof -
  note ok = session_handlesOk(1)[OF assms]
  have st: "step opts e Close s = (onClose s, [])" by (simp add: step_def)
  from ok have d: "distinct (closeListeners s)"
    and 3: "\<forall>h<length (handles s). h \<in> set (closeListeners s) \<or> bootstrapDevice s = Some h"
    and 5: "\<forall>h\<in>set (closeListeners s). h < length (handles s)"
    unfolding handlesOk_def by blast+
  have c: "h < length (handles s) \<and> \<not> hopen (handles (onClose s) ! h)
          \<and> hcloses (handles (onClose s) ! h) = Suc (hcloses (handles s ! h))"
    if "h \<in> set (closeListeners s)"
    using onClose_handles(4)[OF _ that d] 5 that by blast
  have u: "hopen (handles s ! h) \<and> hcloses (handles (onClose s) ! h) = 1"
    if "Close \<notin> set ins" "h \<in> set (closeListeners s)"
  proof -
    from session_handlesOk(2)[OF assms that(1)] 5 that(2)
    have "hopen (handles s ! h) \<and> hcloses (handles s ! h) = 0"
      by (simp add: untouched_def list_all_length)
    with c[OF that(2)] show ?thesis by simp
  qed
  have a: "armed (onClose s) = armed s"
    using timerOk_cong[of "onClose s" s] by (simp add: onClose_fields)
  have f: "snd (step opts e Close s) = []"
    "length (handles (fst (step opts e Close s))) = length (handles s)"
    "interval (fst (step opts e Close s)) = interval s"
    "timers (fst (step opts e Close s)) = timers s"
    "armed (fst (step opts e Close s)) = armed s"
    unfolding st by (simp_all add: onClose_handles(1) onClose_fields a)
  from 3 c u f show ?thesis
    unfolding st fst_conv by blast
qed

theorem close_signal_witness:
  "create defaults flakyHost [statusInterface, controlInterface]
     = Inr (flakySession, [EvError (OpenFailed ''hid-status'')])
   \<and> run defaults flakyHost [] flakySession = (flakySession, [])
   \<and> (1::nat) < length (handles flakySession) \<and> bootstrapDevice flakySession \<noteq> Some 1
   \<and> Close \<notin> set ([] :: input list) \<and> 1 \<in> set (closeListeners flakySession)
   \<and> \<not> hopen (handles (fst (step defaults flakyHost Close flakySession)) ! 1)
   \<and> hcloses (handles (fst (step defaults flakyHost Close flakySession)) ! 1) = 1"
proof -
  have c: "create defaults flakyHost [statusInterface, controlInterface]
     = Inr (flakySession, [EvError (OpenFailed ''hid-status'')])"
    by (rule create_flakySession)
  have r: "run defaults flakyHost [] flakySession = (flakySession, [])" by simp
  have l: "(1::nat) < length (handles flakySession)" "bootstrapDevice flakySession \<noteq> Some 1"
    "1 \<in> set (closeListeners flakySession)"
    by (simp_all add: flakySession_def)
  show ?thesis
    using c r l close_signal [OF c r, of 1]
    by simp
qed

section \<open>Power reports and the scheduler\<close>

lemma create_lateSession:
  "create defaults lateHost [statusInterface]
     = Inr (lateSession, [EvError (OpenFailed ''hid-status'')])"
  by (simp add: session_defs lateHost_def lateSession_def)

lemma bootstrap_timer_kept:
  "interval s = Timer t \<Longrightarrow>
     interval (fst (bootstrap opts e s)) =
           Timer t \<and> timers (fst (bootstrap opts e s)) = timers s
     \<and> timerCount (fst (bootstrap opts e s)) = timerCount s"
  by (auto simp: bootstrap_def Let_def wakeup_def hidOpen_def
      split: option.splits prod.splits if_splits)

lemma bootstrap_timer_started:
  "\<forall>t. interval s \<noteq> Timer t \<Longrightarrow>
     interval (fst (bootstrap opts e s)) = Timer (timerCount s)
     \<and> timers (fst (bootstrap opts e s)) = timers s @ [(timerCount s, updateDelay opts)]
     \<and> timerCount (fst (bootstrap opts e s)) = Suc (timerCount s)"
  by (cases "interval s")
     (auto simp: bootstrap_def Let_def wakeup_def hidOpen_def setInterval_def
      split: option.splits prod.splits if_splits)

lemma bootstrap_with_handle:
  "bootstrapDevice s = Some h \<Longrightarrow>
     bootstrapDevice (fst (bootstrap opts e s)) = Some h
     \<and> handles (fst (bootstrap opts e s)) = handles s
     \<and> openLog (fst (bootstrap opts e s)) = openLog s
     \<and> writeLog (fst (bootstrap opts e s)) = writeLog s @ [(h, wakeupPacket)]
     \<and> snd (bootstrap opts e s) =
         (if writeThrows e (length (writeLog s)) then [EvError (WriteFailed h)] else [])"
  by (cases "interval s")
     (simp_all add: bootstrap_def Let_def wakeup_def setInterval_def)

lemma bootstrap_open_throws:
  "bootstrapDevice s = None \<Longrightarrow> bootstrapDeviceInfo (devices s) = Some d
     \<Longrightarrow> openThrows e (length (openLog s)) (path d) \<Longrightarrow>
     bootstrapDevice (fst (bootstrap opts e s)) = None
     \<and> handles (fst (bootstrap opts e s)) = handles s
     \<and> openLog (fst (bootstrap opts e s)) = openLog s @ [path d]
     \<and> writeLog (fst (bootstrap opts e s)) = writeLog s
     \<and> snd (bootstrap opts e s) = [EvError (OpenFailed (path d))]"
  by (cases "interval s")
     (simp_all add: bootstrap_def Let_def wakeup_def setInterval_def hidOpen_def)

lemma bootstrap_opens:
  "bootstrapDevice s = None \<Longrightarrow> bootstrapDeviceInfo (devices s) = Some d
     \<Longrightarrow> \<not> openThrows e (length (openLog s)) (path d) \<Longrightarrow>
     bootstrapDevice (fst (bootstrap opts e s)) = Some (length (handles s))
     \<and> handles (fst (bootstrap opts e s))
         = handles s @ [\<lparr> hpath = path d, hopen = True, hcloses = 0 \<rparr>]
     \<and> openLog (fst (bootstrap opts e s)) = openLog s @ [path d]
     \<and> writeLog (fst (bootstrap opts e s)) = writeLog s @ [(length (handles s), wakeupPacket)]
     \<and> snd (bootstrap opts e s) =
         (if writeThrows e (length (writeLog s))
          then [EvError (WriteFailed (length (handles s)))] else [])"
  by (cases "interval s")
     (simp_all add: bootstrap_def Let_def wakeup_def setInterval_def hidOpen_def)

lemma power_on_fields:
  "interval (fst (onData opts e now [0x64, 0x01] s)) = interval (fst (bootstrap opts e s))"
  "timers (fst (onData opts e now [0x64, 0x01] s)) = timers (fst (bootstrap opts e s))"
  "timerCount (fst (onData opts e now [0x64, 0x01] s)) = timerCount (fst (bootstrap opts e s))"
  "bootstrapDevice (fst (onData opts e now [0x64, 0x01] s))
     = bootstrapDevice (fst (bootstrap opts e s))"
  "handles (fst (onData opts e now [0x64, 0x01] s)) = handles (fst (bootstrap opts e s))"
  "openLog (fst (onData opts e now [0x64, 0x01] s)) = openLog (fst (bootstrap opts e s))"
  "writeLog (fst (onData opts e now [0x64, 0x01] s)) = writeLog (fst (bootstrap opts e s))"
  using power_on_scheduler[of opts e now s] by (simp_all add: scheduler_def)

lemma power_off_fields:
  "bootstrapDevice (fst (onData opts e now [0x64, 0x03] s)) = bootstrapDevice s"
  "handles (fst (onData opts e now [0x64, 0x03] s)) = handles s"
  "openLog (fst (onData opts e now [0x64, 0x03] s)) = openLog s"
  "writeLog (fst (onData opts e now [0x64, 0x03] s)) = writeLog s"
  using power_off_scheduler[of opts e now s]
  by (simp_all add: scheduler_def clearInterval_def split: timer_ref.splits)

text \<open>
  C10: the scheduler side effect of a power report does not depend on de-duplication.
  A \<open>(0x64,0x03)\<close> report always clears the timer held in \<open>interval\<close> and sets
  \<open>interval\<close> to \<open>null\<close>, and touches no handle, also when the \<open>power\<close> event is
  suppressed. A \<open>(0x64,0x01)\<close> report always runs \<open>bootstrap\<close>, also when the \<open>power\<close>
  event is suppressed: a timer already held in \<open>interval\<close> is kept, otherwise a new one is
  started; with an open status handle the wake-up packet is written to it; without one the
  status interface is looked up, and then either the not-found error is emitted, or the
  open fails with its error, or the interface is opened, kept as the status handle and
  written to. The errors come first in the emitted events, the \<open>power\<close> event, unless
  suppressed, last.
\<close>

theorem power_report_scheduler_effect:
  "interval (fst (onData opts e now [0x64, 0x03] s)) = Null
   \<and> timers (fst (onData opts e now [0x64, 0x03] s)) = timers (clearInterval (interval s) s)
   \<and> (interval s =
         Timer t \<longrightarrow> t \<notin> fst ` set (timers (fst (onData opts e now [0x64, 0x03] s))))
   \<and> (dedupe opts \<and> lastPower s =
         Some Off \<longrightarrow> snd (onData opts e now [0x64, 0x03] s) = [])
   \<and> scheduler (fst (onData opts e now [0x64, 0x01] s)) = scheduler (fst (bootstrap opts e s))
   \<and> (\<exists>t'. interval (fst (onData opts e now [0x64, 0x01] s)) = Timer t')
   \<and> (timerOk s \<longrightarrow> armed (fst (onData opts e now [0x64, 0x01] s)))
   \<and> (bootstrapDevice s = Some h \<longrightarrow>
        writeLog (fst (onData opts e now [0x64, 0x01] s)) = writeLog s @ [(h, wakeupPacket)])
   \<and> (dedupe opts \<and> lastPower s = Some On \<longrightarrow>
        snd (onData opts e now [0x64, 0x01] s) = snd (bootstrap opts e s))
   \<and> snd (onData opts e now [0x64, 0x03] s) =
         (if dedupe opts \<and> lastPower s = Some Off then [] else [EvPower Off])
   \<and> bootstrapDevice (fst (onData opts e now [0x64, 0x03] s)) = bootstrapDevice s
   \<and> handles (fst (onData opts e now [0x64, 0x03] s)) = handles s
   \<and> openLog (fst (onData opts e now [0x64, 0x03] s)) = openLog s
   \<and> writeLog (fst (onData opts e now [0x64, 0x03] s)) = writeLog s
   \<and> (interval s = Timer t \<longrightarrow>
        interval (fst (onData opts e now [0x64, 0x01] s)) =
              Timer t \<and> timers (fst (onData opts e now [0x64, 0x01] s)) = timers s \<and> timerCount (fst (onData opts e now [0x64, 0x01] s)) = timerCount s)
   \<and> ((\<forall>t'. interval s \<noteq> Timer t') \<longrightarrow>
        interval (fst (onData opts e now [0x64, 0x01] s)) = Timer (timerCount s)
        \<and> timers (fst (onData opts e now [0x64, 0x01] s)) =
              timers s @ [(timerCount s, updateDelay opts)]
        \<and> timerCount (fst (onData opts e now [0x64, 0x01] s)) = Suc (timerCount s))
   \<and> (bootstrapDevice s = Some h \<longrightarrow>
        bootstrapDevice (fst (onData opts e now [0x64, 0x01] s)) =
              Some h \<and> handles (fst (onData opts e now [0x64, 0x01] s)) = handles s \<and> openLog (fst (onData opts e now [0x64, 0x01] s)) = openLog s
        \<and> snd (onData opts e now [0x64, 0x01] s) =
            (if writeThrows e (length (writeLog s)) then [EvError (WriteFailed h)] else [])
            @ (if dedupe opts \<and> lastPower s = Some On then [] else [EvPower On]))
   \<and> (bootstrapDevice s = None \<and> bootstrapDeviceInfo (devices s) = None \<longrightarrow>
        bootstrapDevice (fst (onData opts e now [0x64, 0x01] s)) =
              None \<and> handles (fst (onData opts e now [0x64, 0x01] s)) = handles s \<and> openLog (fst (onData opts e now [0x64, 0x01] s)) = openLog s
        \<and> writeLog (fst (onData opts e now [0x64, 0x01] s)) = writeLog s
        \<and> snd (onData opts e now [0x64, 0x01] s) =
              [EvError StatusInterfaceNotFound] @ (if dedupe opts \<and> lastPower s = Some On then [] else [EvPower On]))
   \<and> (bootstrapDevice s = None \<and> bootstrapDeviceInfo (devices s) = Some d
        \<and> openThrows e (length (openLog s)) (path d) \<longrightarrow>
        bootstrapDevice (fst (onData opts e now [0x64, 0x01] s)) =
              None \<and> handles (fst (onData opts e now [0x64, 0x01] s)) = handles s
        \<and> openLog (fst (onData opts e now [0x64, 0x01] s)) =
              openLog s @ [path d] \<and> writeLog (fst (onData opts e now [0x64, 0x01] s)) = writeLog s
        \<and> snd (onData opts e now [0x64, 0x01] s) =
              [EvError (OpenFailed (path d))] @ (if dedupe opts \<and> lastPower s = Some On then [] else [EvPower On]))
   \<and> (bootstrapDevice s = None \<and> bootstrapDeviceInfo (devices s) = Some d
        \<and> \<not> openThrows e (length (openLog s)) (path d) \<longrightarrow>
        bootstrapDevice (fst (onData opts e now [0x64, 0x01] s)) = Some (length (handles s))
        \<and> handles (fst (onData opts e now [0x64, 0x01] s)) =
              handles s @ [\<lparr> hpath = path d, hopen = True, hcloses = 0 \<rparr>]
        \<and> openLog (fst (onData opts e now [0x64, 0x01] s)) = openLog s @ [path d]
        \<and> writeLog (fst (onData opts e now [0x64, 0x01] s)) =
              writeLog s @ [(length (handles s), wakeupPacket)]
        \<and> snd (onData opts e now [0x64, 0x01] s) =
            (if writeThrows e (length (writeLog s))
             then [EvError (WriteFailed (length (handles s)))] else [])
            @ (if dedupe opts \<and> lastPower s = Some On then [] else [EvPower On]))"
proof -
  let ?off =
        "fst (onData opts e now [0x64, 0x03] s)" and ?on = "fst (onData opts e now [0x64, 0x01] s)"
  have so: "scheduler ?off =
        scheduler ((clearInterval (interval s) s)\<lparr> interval := Null \<rparr>)"
    by (rule power_off_scheduler)
  then have 1: "interval ?off = Null" and 2: "timers ?off = timers (clearInterval (interval s) s)"
    by (simp_all add: scheduler_def)
  have 3: "interval s = Timer t \<Longrightarrow> t \<notin> fst ` set (timers ?off)"
    unfolding 2 by (auto simp: clearInterval_def)
  have 4: "dedupe opts \<and> lastPower s =
        Some Off \<Longrightarrow> snd (onData opts e now [0x64, 0x03] s) = []"
    by (simp add: power_off_events)
  have 5: "scheduler ?on = scheduler (fst (bootstrap opts e s))" by (rule power_on_scheduler)
  note f = power_on_fields[of opts e now s]
  have 6: "\<exists>t'. interval ?on = Timer t'" unfolding f by (rule bootstrap_timer)
  have 7: "timerOk s \<Longrightarrow> armed ?on"
    using scheduler_timerOk[OF 5] bootstrap_timerOk[of s opts e] by simp
  have 8: "bootstrapDevice s =
        Some h \<Longrightarrow> writeLog ?on = writeLog s @ [(h, wakeupPacket)]"
    unfolding f using bootstrap_with_handle[of s h opts e] by simp
  have 9: "dedupe opts \<and> lastPower s =
        Some On \<Longrightarrow> snd (onData opts e now [0x64, 0x01] s) = snd (bootstrap opts e s)"
    by (simp add: power_on_events)
  note 10 = power_off_events[of opts e now s]
  note 11 = power_off_fields[of opts e now s]
  have 12: "interval s = Timer t \<Longrightarrow>
        interval ?on = Timer t \<and> timers ?on = timers s \<and> timerCount ?on = timerCount s"
    unfolding f by (rule bootstrap_timer_kept)
  have 13: "\<forall>t'. interval s \<noteq> Timer t' \<Longrightarrow>
        interval ?on = Timer (timerCount s)
        \<and> timers ?on = timers s @ [(timerCount s, updateDelay opts)]
        \<and> timerCount ?on = Suc (timerCount s)"
    unfolding f by (rule bootstrap_timer_started)
  have 14: "bootstrapDevice s = Some h \<Longrightarrow>
        bootstrapDevice ?on = Some h \<and> handles ?on = handles s \<and> openLog ?on = openLog s
        \<and> snd (onData opts e now [0x64, 0x01] s) =
            (if writeThrows e (length (writeLog s)) then [EvError (WriteFailed h)] else [])
            @ (if dedupe opts \<and> lastPower s = Some On then [] else [EvPower On])"
    unfolding f power_on_events using bootstrap_with_handle[of s h opts e] by simp
  have 15: "bootstrapDevice s = None \<and> bootstrapDeviceInfo (devices s) = None \<Longrightarrow>
        bootstrapDevice ?on = None \<and> handles ?on = handles s \<and> openLog ?on = openLog s
        \<and> writeLog ?on = writeLog s
        \<and> snd (onData opts e now [0x64, 0x01] s) =
              [EvError StatusInterfaceNotFound] @ (if dedupe opts \<and> lastPower s = Some On then [] else [EvPower On])"
    unfolding f power_on_events using bootstrap_not_found[of s opts e] by simp
  have 16: "bootstrapDevice s = None \<and> bootstrapDeviceInfo (devices s) = Some d
        \<and> openThrows e (length (openLog s)) (path d) \<Longrightarrow>
        bootstrapDevice ?on = None \<and> handles ?on = handles s
        \<and> openLog ?on = openLog s @ [path d] \<and> writeLog ?on = writeLog s
        \<and> snd (onData opts e now [0x64, 0x01] s) =
              [EvError (OpenFailed (path d))] @ (if dedupe opts \<and> lastPower s = Some On then [] else [EvPower On])"
    unfolding f power_on_events using bootstrap_open_throws[of s d e opts] by simp
  have 17: "bootstrapDevice s = None \<and> bootstrapDeviceInfo (devices s) = Some d
        \<and> \<not> openThrows e (length (openLog s)) (path d) \<Longrightarrow>
        bootstrapDevice ?on = Some (length (handles s))
        \<and> handles ?on =
              handles s @ [\<lparr> hpath = path d, hopen = True, hcloses = 0 \<rparr>]
        \<and> openLog ?on = openLog s @ [path d]
        \<and> writeLog ?on = writeLog s @ [(length (handles s), wakeupPacket)]
        \<and> snd (onData opts e now [0x64, 0x01] s) =
            (if writeThrows e (length (writeLog s))
             then [EvError (WriteFailed (length (handles s)))] else [])
            @ (if dedupe opts \<and> lastPower s = Some On then [] else [EvPower On])"
    unfolding f power_on_events using bootstrap_opens[of s d e opts] by simp
  show ?thesis
    apply (intro conjI impI)
    using 1 2 3 4 5 6 7 8 9 10 11 12 13 14 15 16 17 by blast+
qed

lemma create_lateSession_deaf:
  "create defaults deafHost [statusInterface]
     = Inr (lateSession, [EvError (OpenFailed ''hid-status'')])"
  by (simp add: session_defs deafHost_def lateSession_def)

lemma run_poweredOff:
  "run defaults quietHost [Report 1 [0x64, 0x03] 0] statusSession = (poweredOff, [EvPower Off])"
proof -
  have "onData defaults quietHost 0 [0x64, 0x03] statusSession = (poweredOff, [EvPower Off])"
    by (simp add: onData_def emitPower_def clearInterval_def statusSession_def poweredOff_def
        defaults_def)
  then have "step defaults quietHost (Report 1 [0x64, 0x03] 0) statusSession
      = (poweredOff, [EvPower Off])"
    by (simp add: step_def) (simp add: statusSession_def)
  then show ?thesis by (simp only: run.simps prod.case) simp
qed

lemma run_poweredOn:
  "run defaults quietHost [Report 1 [0x64, 0x01] 0] statusSession = (poweredOn, [EvPower On])"
proof -
  have "onData defaults quietHost 0 [0x64, 0x01] statusSession = (poweredOn, [EvPower On])"
    by (simp add: onData_def emitPower_def bootstrap_def wakeup_def Let_def quietHost_def
        statusSession_def poweredOn_def defaults_def)
  then have "step defaults quietHost (Report 1 [0x64, 0x01] 0) statusSession
      = (poweredOn, [EvPower On])"
    by (simp add: step_def) (simp add: statusSession_def)
  then show ?thesis by (simp only: run.simps prod.case) simp
qed

theorem power_report_scheduler_effect_witness:
  "create defaults quietHost [statusInterface] = Inr (statusSession, [])
   \<and> interval statusSession = Timer 0
   \<and> 0 \<notin> fst ` set (timers (fst (onData defaults quietHost 5 [0x64, 0x03] statusSession)))
   \<and> run defaults quietHost [Report 1 [0x64, 0x03] 0] statusSession =
         (poweredOff, [EvPower Off])
   \<and> dedupe defaults \<and> lastPower poweredOff = Some Off
   \<and> snd (onData defaults quietHost 5 [0x64, 0x03] poweredOff) = []
   \<and> interval (fst (onData defaults quietHost 5 [0x64, 0x03] poweredOff)) = Null
   \<and> interval (fst (onData defaults quietHost 5 [0x64, 0x01] poweredOff)) = Timer 1
   \<and> timers (fst (onData defaults quietHost 5 [0x64, 0x01] poweredOff)) = [(1, 300000)]
   \<and> run defaults quietHost [Report 1 [0x64, 0x01] 0] statusSession = (poweredOn, [EvPower On])
   \<and> lastPower poweredOn =
         Some On \<and> bootstrapDevice poweredOn = Some 0 \<and> timerOk poweredOn
   \<and> snd (onData defaults quietHost 5 [0x64, 0x01] poweredOn) = []
   \<and> armed (fst (onData defaults quietHost 5 [0x64, 0x01] poweredOn))
   \<and> writeLog (fst (onData defaults quietHost 5 [0x64, 0x01] poweredOn))
       = [(0, wakeupPacket), (0, wakeupPacket), (0, wakeupPacket)]
   \<and> create defaults lateHost [statusInterface]
       = Inr (lateSession, [EvError (OpenFailed ''hid-status'')])
   \<and> bootstrapDevice lateSession = None
   \<and> bootstrapDeviceInfo (devices lateSession) = Some statusInterface
   \<and> \<not> openThrows lateHost (length (openLog lateSession)) (path statusInterface)
   \<and> bootstrapDevice (fst (onData defaults lateHost 5 [0x64, 0x01] lateSession)) = Some 1
   \<and> map hpath (handles (fst (onData defaults lateHost 5 [0x64, 0x01] lateSession)))
       = [''hid-status'', ''hid-status'']
   \<and> writeLog (fst (onData defaults lateHost 5 [0x64, 0x01] lateSession)) = [(1, wakeupPacket)]
   \<and> snd (onData defaults lateHost 5 [0x64, 0x01] lateSession) = [EvPower On]
   \<and> create defaults deafHost [statusInterface]
       = Inr (lateSession, [EvError (OpenFailed ''hid-status'')])
   \<and> openThrows deafHost (length (openLog lateSession)) (path statusInterface)
   \<and> snd (onData defaults deafHost 5 [0x64, 0x01] lateSession)
       = [EvError (OpenFailed ''hid-status''), EvPower On]
   \<and> writeLog (fst (onData defaults deafHost 5 [0x64, 0x01] lateSession)) = []
   \<and> create defaults quietHost [controlInterface]
       = Inr (controlSession, [EvError StatusInterfaceNotFound])
   \<and> bootstrapDevice controlSession = None
   \<and> bootstrapDeviceInfo (devices controlSession) = None
   \<and> snd (onData defaults quietHost 5 [0x64, 0x01] controlSession)
       = [EvError StatusInterfaceNotFound, EvPower On]
   \<and> writeLog (fst (onData defaults quietHost 5 [0x64, 0x01] controlSession)) = []"
proof -
  have a: "interval statusSession = Timer 0" by (simp add: statusSession_def)
  have b: "dedupe defaults" "lastPower poweredOff = Some Off"
    "\<forall>t'. interval poweredOff \<noteq> Timer t'" "timerCount poweredOff =
          1" "timers poweredOff = []"
    "updateDelay defaults = 300000"
    by (simp_all add: poweredOff_def statusSession_def defaults_def)
  have c: "lastPower poweredOn = Some On" "bootstrapDevice poweredOn = Some 0" "timerOk poweredOn"
    "writeLog poweredOn = [(0, wakeupPacket), (0, wakeupPacket)]"
    "\<not> writeThrows quietHost (length (writeLog poweredOn))"
    by (simp_all add: poweredOn_def statusSession_def timerOk_def quietHost_def)
  have d: "bootstrapDevice lateSession = None"
    "bootstrapDeviceInfo (devices lateSession) = Some statusInterface"
    "\<not> openThrows lateHost (length (openLog lateSession)) (path statusInterface)"
    "openThrows deafHost (length (openLog lateSession)) (path statusInterface)"
    "handles lateSession = [\<lparr> hpath = ''hid-status'', hopen = True, hcloses = 0 \<rparr>]"
    "writeLog lateSession = []" "lastPower lateSession = None"
    "\<not> writeThrows lateHost (length (writeLog lateSession))"
    "path statusInterface = ''hid-status''"
    by (simp_all add: lateSession_def lateHost_def deafHost_def bootstrapDeviceInfo_def
        isStatus_def statusInterface_def STATUS_USAGE_def STATUS_USAGEPAGES_def)
  have f: "bootstrapDevice controlSession = None"
    "bootstrapDeviceInfo (devices controlSession) = None"
    "writeLog controlSession = []" "lastPower controlSession = None"
    by (simp_all add: controlSession_def bootstrapDeviceInfo_def isStatus_def hasStatusUsage_def
        controlInterface_def STATUS_USAGE_def)
  note t1 = power_report_scheduler_effect
      [where opts = defaults and e = quietHost and now = 5 and s = statusSession and t = 0
         and h = 0 and d = statusInterface]
  note t2 = power_report_scheduler_effect
      [where opts = defaults and e = quietHost and now = 5 and s = poweredOff and t = 0
         and h = 0 and d = statusInterface]
  note t3 = power_report_scheduler_effect
      [where opts = defaults and e = quietHost and now = 5 and s = poweredOn and t = 0
         and h = 0 and d = statusInterface]
  note t4 = power_report_scheduler_effect
      [where opts = defaults and e = lateHost and now = 5 and s = lateSession and t = 0
         and h = 0 and d = statusInterface]
  note t5 = power_report_scheduler_effect
      [where opts = defaults and e = deafHost and now = 5 and s = lateSession and t = 0
         and h = 0 and d = statusInterface]
  note t6 = power_report_scheduler_effect
      [where opts = defaults and e = quietHost and now = 5 and s = controlSession and t = 0
         and h = 0 and d = statusInterface]
  have 1: "0 \<notin> fst ` set (timers (fst (onData defaults quietHost 5 [0x64, 0x03] statusSession)))"
    using t1 a by blast
  have 2: "snd (onData defaults quietHost 5 [0x64, 0x03] poweredOff) = []"
    "interval (fst (onData defaults quietHost 5 [0x64, 0x03] poweredOff)) = Null"
    using t2 b(1,2) by blast+
  have 3: "interval (fst (onData defaults quietHost 5 [0x64, 0x01] poweredOff)) = Timer 1"
    "timers (fst (onData defaults quietHost 5 [0x64, 0x01] poweredOff)) = [(1, 300000)]"
    using t2 b(3) unfolding b(4,5,6) by auto
  have 4: "snd (onData defaults quietHost 5 [0x64, 0x01] poweredOn) = []"
    "armed (fst (onData defaults quietHost 5 [0x64, 0x01] poweredOn))"
    "writeLog (fst (onData defaults quietHost 5 [0x64, 0x01] poweredOn))
       = [(0, wakeupPacket), (0, wakeupPacket), (0, wakeupPacket)]"
    using t3 b(1) c by auto
  have 5: "bootstrapDevice (fst (onData defaults lateHost 5 [0x64, 0x01] lateSession)) = Some 1"
    "map hpath (handles (fst (onData defaults lateHost 5 [0x64, 0x01] lateSession)))
       = [''hid-status'', ''hid-status'']"
    "writeLog (fst (onData defaults lateHost 5 [0x64, 0x01] lateSession)) = [(1, wakeupPacket)]"
    "snd (onData defaults lateHost 5 [0x64, 0x01] lateSession) = [EvPower On]"
    using t4 d(1,2,3) unfolding d(5,6,7,9) using d(8) unfolding d(6) by auto
  have 6: "snd (onData defaults deafHost 5 [0x64, 0x01] lateSession)
       = [EvError (OpenFailed ''hid-status''), EvPower On]"
    "writeLog (fst (onData defaults deafHost 5 [0x64, 0x01] lateSession)) = []"
    using t5 d(1,2,4) unfolding d(6,7,9) by auto
  have 7: "snd (onData defaults quietHost 5 [0x64, 0x01] controlSession)
       = [EvError StatusInterfaceNotFound, EvPower On]"
    "writeLog (fst (onData defaults quietHost 5 [0x64, 0x01] controlSession)) = []"
    using t6 f(1,2) unfolding f(3,4) by auto
  from create_statusSession a 1 run_poweredOff b(1,2) 2 3 run_poweredOn c(1,2,3) 4
    create_lateSession d(1,2,3) 5 create_lateSession_deaf d(4) 6 create_controlSession f(1,2) 7
  show ?thesis by blast
qed

end
